theory Spec2Isabelle
  imports Main "HOL-Library.Word"
begin

unbundle bit_operations_syntax

section \<open>Errors\<close>

text \<open>
  The sentinel errors of \<^verbatim>\<open>internal/domain/errors/errors.go\<close>, followed by the other
  error values the engine can return: an error of the go-redis client, an error of
  \<^verbatim>\<open>database/sql\<close>, an \<^verbatim>\<open>errors.New\<close>/\<^verbatim>\<open>fmt.Errorf\<close> message without a wrapped cause,
  a \<^verbatim>\<open>fmt.Errorf("...: %w", err)\<close> wrapper (which is not equal to the sentinel it wraps),
  and a runtime panic.
\<close>

datatype error =
    ErrSaleNotFound
  | ErrSaleNotActive
  | ErrSaleOutOfStock
  | ErrSaleLimitExceeded
  | ErrNoItemsToPurchase
  | ErrItemNotFound
  | ErrItemAlreadySold
  | ErrItemNotInSale
  | ErrAllItemsSold
  | ErrCheckoutNotFound
  | ErrCheckoutExpired
  | ErrItemAlreadyInCheckout
  | ErrUserAlreadyCheckedOutItem
  | ErrUserLimitExceeded
  | ErrCheckoutAlreadyProcessed
  | ErrTransactionFailed
  | ErrRedis
  | ErrSQL
  | ErrMsg string
  | ErrWrap string error
  | ErrPanic

section \<open>The coordination store\<close>

text \<open>
  The Redis keyspace, split by the type of value each key family holds: integer counters,
  plain strings (checkout codes, existence markers, lock sentinels), sets and bitmaps.
  Key expiry is not part of the model: a key lives until it is deleted.
\<close>

record redis =
  ints :: "string \<rightharpoonup> int"
  strs :: "string \<rightharpoonup> string"
  sets :: "string \<Rightarrow> string set"
  bitmaps :: "string \<Rightarrow> nat set"

definition saleItemsSoldKey :: "string \<Rightarrow> string" where
  "saleItemsSoldKey saleID = ''sale:'' @ saleID @ '':items_sold''"

definition userCountKey :: "string \<Rightarrow> string \<Rightarrow> string" where
  "userCountKey userID saleID = ''user:'' @ userID @ '':sale:'' @ saleID @ '':count''"

definition userCheckoutCountKey :: "string \<Rightarrow> string \<Rightarrow> string" where
  "userCheckoutCountKey userID saleID =
     ''user:'' @ userID @ '':sale:'' @ saleID @ '':checkout_count''"

definition userCheckoutKey :: "string \<Rightarrow> string \<Rightarrow> string" where
  "userCheckoutKey userID saleID = ''user:'' @ userID @ '':sale:'' @ saleID @ '':checkout''"

definition checkoutKey :: "string \<Rightarrow> string" where
  "checkoutKey code = ''checkout:'' @ code"

definition checkedItemsKey :: "string \<Rightarrow> string \<Rightarrow> string" where
  "checkedItemsKey userID saleID =
     ''user:'' @ userID @ '':sale:'' @ saleID @ '':checked_items''"

definition lockKeyOf :: "string \<Rightarrow> string" where
  "lockKeyOf key = ''lock:'' @ key"

text \<open>
  A counter is the decimal string of an integer; \<^verbatim>\<open>GET\<close> of an absent key answers
  nothing, which both the scripts (\<^verbatim>\<open>redis.call('GET', key) or 0\<close>) and the adapter
  (\<^verbatim>\<open>redis.Nil\<close>) read as 0.
\<close>

definition luaGET :: "redis \<Rightarrow> string \<Rightarrow> int" where
  "luaGET r key = (case ints r key of None \<Rightarrow> 0 | Some v \<Rightarrow> v)"

text \<open>
  \<^verbatim>\<open>INCRBY\<close> and \<^verbatim>\<open>INCR\<close> work on 64-bit signed integers: when the stored value, the
  increment or their sum is outside that range the command answers an error (\<open>None\<close>)
  and changes nothing.
\<close>

definition int64 :: "int \<Rightarrow> bool" where
  "int64 v = (- (2 ^ 63) \<le> v \<and> v < 2 ^ 63)"

definition INCRBY :: "redis \<Rightarrow> string \<Rightarrow> int \<Rightarrow> redis option" where
  "INCRBY r key n =
     (if int64 (luaGET r key) \<and> int64 n \<and> int64 (luaGET r key + n)
      then Some (r\<lparr>ints := (ints r)(key \<mapsto> luaGET r key + n)\<rparr>)
      else None)"

subsection \<open>Numbers in the scripts\<close>

text \<open>
  A number of a Lua script is an IEEE 754 double. The numbers of the scripts below come
  from integers (the arguments sent by the Go client and the counters read by
  \<^verbatim>\<open>GET\<close>) by \<^verbatim>\<open>tonumber\<close>, \<^verbatim>\<open>+\<close> and \<^verbatim>\<open>-\<close>, so each of them is an integer
  that a double represents; the model writes such a number as that integer. \<open>ulp a\<close>
  is the distance between neighbouring doubles at magnitude \<open>a\<close> (1 below \<open>2 ^ 53\<close>),
  \<open>roundNat\<close> rounds a magnitude to the nearest double, a tie going to the even
  significand, and \<open>tonumber\<close> does so for an integer of either sign. The sum and the
  difference of two doubles are the rounded exact results:
  \<open>tonumber (a + b)\<close> and \<open>tonumber (a - b)\<close>. (Magnitudes from \<open>2 ^ 1024\<close>, where a
  double is infinite, are beyond every 64-bit argument and counter.)
\<close>

function ulp :: "nat \<Rightarrow> nat" where
  "ulp a = (if a < 2 ^ 53 then 1 else 2 * ulp (a div 2))"
  by pat_completeness auto
termination
  by (relation "measure (\<lambda>a. a)") auto

declare ulp.simps [simp del]

definition roundNat :: "nat \<Rightarrow> nat" where
  "roundNat a =
     (let u = ulp a; q = a div u; rest = a mod u
      in if 2 * rest < u \<or> (2 * rest = u \<and> even q) then q * u else (q + 1) * u)"

definition tonumber :: "int \<Rightarrow> int" where
  "tonumber v = (if v < 0 then - int (roundNat (nat (- v))) else int (roundNat (nat v)))"

text \<open>
  A number passed to \<^verbatim>\<open>redis.call\<close> is rendered as a string, which \<^verbatim>\<open>INCRBY\<close> then
  parses. An integer of magnitude below \<open>10 ^ 17\<close> is rendered by its digits in every
  version of the server. How a larger one is rendered depends on the version (the format
  \<^verbatim>\<open>%.17g\<close>, the digits of a \<^verbatim>\<open>long long\<close>, or a shortest decimal), so the integer
  that the command parses from the rendering, \<open>None\<close> when it parses none, is the
  parameter \<open>render\<close>.
\<close>

type_synonym rendering = "int \<Rightarrow> int option"

definition luaNumberArg :: "rendering \<Rightarrow> int \<Rightarrow> int option" where
  "luaNumberArg render x = (if \<bar>x\<bar> < 10 ^ 17 then Some x else render x)"

text \<open>\<^verbatim>\<open>redis.call('INCRBY', key, x)\<close> in a script, for the number \<open>x\<close>.\<close>

definition luaINCRBY :: "rendering \<Rightarrow> redis \<Rightarrow> string \<Rightarrow> int \<Rightarrow> redis option" where
  "luaINCRBY render r key x =
     (case luaNumberArg render x of None \<Rightarrow> None | Some n \<Rightarrow> INCRBY r key n)"

subsection \<open>The atomic scripts\<close>

text \<open>
  \<^verbatim>\<open>purchaseLuaScript\<close> with \<^verbatim>\<open>KEYS = [sale_key, user_key]\<close> and
  \<^verbatim>\<open>ARGV = [ARGV1, ARGV2, ARGV3]\<close>, the decimal strings of three Go integers. The
  script runs on the single-threaded server without interleaving, so it is a function
  from the keyspace to its reply and the new keyspace. An error raised by
  \<^verbatim>\<open>redis.call\<close> ends the script with an error reply (\<open>Inl\<close>); what the script wrote
  before stays written, since the server does not roll a script back.
\<close>

definition purchaseLuaScript ::
  "rendering \<Rightarrow> redis \<Rightarrow> string \<Rightarrow> string \<Rightarrow> int \<Rightarrow> int \<Rightarrow> int \<Rightarrow> (error + int) \<times> redis" where
  "purchaseLuaScript render r sale_key user_key ARGV1 ARGV2 ARGV3 =
     (let item_count = tonumber ARGV1;
          max_sale_items = tonumber ARGV2;
          max_user_items = tonumber ARGV3;
          current_sale_count = tonumber (luaGET r sale_key);
          current_user_count = tonumber (luaGET r user_key)
      in if tonumber (current_sale_count + item_count) > max_sale_items then (Inr 0, r)
         else let remaining_user_capacity = tonumber (max_user_items - current_user_count)
              in if item_count > remaining_user_capacity then (Inr 0, r)
                 else case luaINCRBY render r sale_key item_count of
                        None \<Rightarrow> (Inl ErrRedis, r)
                      | Some r1 \<Rightarrow>
                          (case luaINCRBY render r1 user_key item_count of
                             None \<Rightarrow> (Inl ErrRedis, r1)
                           | Some r2 \<Rightarrow> (Inr 1, r2)))"

text \<open>
  \<^verbatim>\<open>Cache.AtomicPurchaseCheck\<close>: builds the two keys, runs the script and compares the
  reply with 1. \<open>down\<close> says that the round trip to the store fails.
\<close>

definition AtomicPurchaseCheck ::
  "rendering \<Rightarrow> bool \<Rightarrow> redis \<Rightarrow> string \<Rightarrow> string \<Rightarrow> int \<Rightarrow> int \<Rightarrow> int
   \<Rightarrow> (error + bool) \<times> redis" where
  "AtomicPurchaseCheck render down r saleID userID itemCount maxSaleItems maxUserItems =
     (if down then (Inl ErrRedis, r)
      else case purchaseLuaScript render r (saleItemsSoldKey saleID) (userCountKey userID saleID)
                  itemCount maxSaleItems maxUserItems of
             (Inl e, r') \<Rightarrow> (Inl e, r')
           | (Inr resultInt, r') \<Rightarrow> (Inr (resultInt = 1), r'))"

subsection \<open>The sold-items filter\<close>

text \<open>
  \<^verbatim>\<open>RedisBloomFilter\<close>: a bitmap under \<open>bf_key\<close> of \<open>bf_m\<close> bits, addressed by
  \<open>bf_k\<close> positions per element. \<^verbatim>\<open>hash1\<close> is 64-bit FNV-1a; \<^verbatim>\<open>hash2\<close> is the first
  eight bytes (big endian) of the SHA-256 digest, a function of the standard library that
  the definitions take as the parameter \<open>sha\<close>.
\<close>

record RedisBloomFilter =
  bf_key :: string
  bf_m :: "64 word"
  bf_k :: "64 word"

type_synonym digest = "string \<Rightarrow> 64 word"

definition hash1 :: "string \<Rightarrow> 64 word" where
  "hash1 element =
     foldl (\<lambda>h c. (h XOR of_char c) * 1099511628211) 14695981039346656037 element"

definition getHashes :: "digest \<Rightarrow> RedisBloomFilter \<Rightarrow> string \<Rightarrow> 64 word list" where
  "getHashes sha bf element =
     map (\<lambda>i. hash1 element + of_nat i * sha element) [0..<unat (bf_k bf)]"

definition bitPositions :: "digest \<Rightarrow> RedisBloomFilter \<Rightarrow> string \<Rightarrow> nat list" where
  "bitPositions sha bf element = map (\<lambda>h. unat (h mod bf_m bf)) (getHashes sha bf element)"

text \<open>The server accepts a bit offset below \<open>2 ^ 32\<close> and answers an error otherwise.\<close>

definition validOffset :: "nat \<Rightarrow> bool" where
  "validOffset p = (p < 2 ^ 32)"

text \<open>
  \<^verbatim>\<open>Add\<close> queues one \<^verbatim>\<open>SETBIT\<close> per position and executes the pipeline; the result is
  the returned error (\<open>None\<close> for \<^verbatim>\<open>nil\<close>) and the new keyspace. \<^verbatim>\<open>hashes[i] % bf.m\<close>
  panics when \<open>bf_m\<close> is zero. A pipeline whose round trip fails changes nothing; a
  command refused by the server fails alone.
\<close>

definition Add ::
  "bool \<Rightarrow> digest \<Rightarrow> RedisBloomFilter \<Rightarrow> redis \<Rightarrow> string \<Rightarrow> error option \<times> redis" where
  "Add down sha bf r element =
     (if bf_k bf \<noteq> 0 \<and> bf_m bf = 0 then (Some ErrPanic, r)
      else if down then (Some ErrRedis, r)
      else let ps = bitPositions sha bf element
           in (if list_all validOffset ps then None else Some ErrRedis,
               r\<lparr>bitmaps := (bitmaps r)
                    (bf_key bf := bitmaps r (bf_key bf) \<union> set (filter validOffset ps))\<rparr>))"

definition Contains ::
  "bool \<Rightarrow> digest \<Rightarrow> RedisBloomFilter \<Rightarrow> redis \<Rightarrow> string \<Rightarrow> error + bool" where
  "Contains down sha bf r element =
     (if bf_k bf \<noteq> 0 \<and> bf_m bf = 0 then Inl ErrPanic
      else if down then Inl ErrRedis
      else let ps = bitPositions sha bf element
           in if \<not> list_all validOffset ps then Inl ErrRedis
              else Inr (list_all (\<lambda>p. p \<in> bitmaps r (bf_key bf)) ps))"

text \<open>
  A sequence of \<^verbatim>\<open>Add\<close> calls, each with its own round-trip outcome; the result is the
  final keyspace and the elements whose \<^verbatim>\<open>Add\<close> returned \<^verbatim>\<open>nil\<close>.
\<close>

fun run_adds ::
  "digest \<Rightarrow> RedisBloomFilter \<Rightarrow> redis \<Rightarrow> (bool \<times> string) list \<Rightarrow> redis \<times> string list" where
  "run_adds sha bf r [] = (r, [])"
| "run_adds sha bf r ((down, x) # ops) =
     (case Add down sha bf r x of
        (err, r') \<Rightarrow>
          (case run_adds sha bf r' ops of
             (r'', xs) \<Rightarrow> (r'', if err = None then x # xs else xs)))"

subsection \<open>The cache adapter\<close>

text \<open>
  \<^verbatim>\<open>NewCache\<close> builds the filter with \<^verbatim>\<open>GetOptimalParameters(100000, 0.01)\<close>, a
  floating-point computation whose value is \<open>m = 958506\<close> and \<open>k = 7\<close>.
\<close>

definition soldItemsFilter :: RedisBloomFilter where
  "soldItemsFilter = \<lparr>bf_key = ''bloom:sold_items'', bf_m = 958506, bf_k = 7\<rparr>"

text \<open>
  Each method of \<^verbatim>\<open>Cache\<close> takes the flag \<open>down\<close> (the command's round trip fails,
  the method returns the client's error and the keyspace is untouched) and the keyspace.
  A method returning only \<^verbatim>\<open>error\<close> yields \<open>error option\<close>.
\<close>

definition AddItemToBloomFilter ::
  "bool \<Rightarrow> digest \<Rightarrow> redis \<Rightarrow> string \<Rightarrow> error option \<times> redis" where
  "AddItemToBloomFilter down sha r itemID = Add down sha soldItemsFilter r itemID"

definition ItemExistsInBloomFilter ::
  "bool \<Rightarrow> digest \<Rightarrow> redis \<Rightarrow> string \<Rightarrow> error + bool" where
  "ItemExistsInBloomFilter down sha r itemID = Contains down sha soldItemsFilter r itemID"

definition GetUserItemCount :: "bool \<Rightarrow> redis \<Rightarrow> string \<Rightarrow> string \<Rightarrow> error + int" where
  "GetUserItemCount down r saleID userID =
     (if down then Inl ErrRedis else Inr (luaGET r (userCountKey userID saleID)))"

definition GetUserCheckoutCount :: "bool \<Rightarrow> redis \<Rightarrow> string \<Rightarrow> string \<Rightarrow> error + int" where
  "GetUserCheckoutCount down r saleID userID =
     (if down then Inl ErrRedis else Inr (luaGET r (userCheckoutCountKey userID saleID)))"

definition IncrementUserCheckoutCount ::
  "bool \<Rightarrow> redis \<Rightarrow> string \<Rightarrow> string \<Rightarrow> error option \<times> redis" where
  "IncrementUserCheckoutCount down r saleID userID =
     (if down then (Some ErrRedis, r)
      else case INCRBY r (userCheckoutCountKey userID saleID) 1 of
             None \<Rightarrow> (Some ErrRedis, r)
           | Some r' \<Rightarrow> (None, r'))"

definition GetAvailableCheckoutSlots ::
  "bool \<Rightarrow> bool \<Rightarrow> redis \<Rightarrow> string \<Rightarrow> string \<Rightarrow> int \<Rightarrow> error + int" where
  "GetAvailableCheckoutSlots down1 down2 r saleID userID maxItems =
     (case GetUserItemCount down1 r saleID userID of
        Inl e \<Rightarrow> Inl e
      | Inr purchasedCount \<Rightarrow>
          (case GetUserCheckoutCount down2 r saleID userID of
             Inl e \<Rightarrow> Inl e
           | Inr checkoutCount \<Rightarrow> Inr (maxItems - purchasedCount - checkoutCount)))"

definition GetUserCheckoutCode :: "bool \<Rightarrow> redis \<Rightarrow> string \<Rightarrow> string \<Rightarrow> error + string" where
  "GetUserCheckoutCode down r saleID userID =
     (if down then Inl ErrRedis
      else case strs r (userCheckoutKey userID saleID) of
             None \<Rightarrow> Inr []
           | Some code \<Rightarrow> Inr code)"

definition SetUserCheckoutCode ::
  "bool \<Rightarrow> redis \<Rightarrow> string \<Rightarrow> string \<Rightarrow> string \<Rightarrow> error option \<times> redis" where
  "SetUserCheckoutCode down r saleID userID code =
     (if down then (Some ErrRedis, r)
      else (None, r\<lparr>strs := (strs r)(userCheckoutKey userID saleID \<mapsto> code)\<rparr>))"

definition RemoveUserCheckoutCode ::
  "bool \<Rightarrow> redis \<Rightarrow> string \<Rightarrow> string \<Rightarrow> error option \<times> redis" where
  "RemoveUserCheckoutCode down r saleID userID =
     (if down then (Some ErrRedis, r)
      else (None, r\<lparr>strs := (strs r)(userCheckoutKey userID saleID := None),
                     ints := (ints r)(userCheckoutCountKey userID saleID := None)\<rparr>))"

definition SetCheckoutCode :: "bool \<Rightarrow> redis \<Rightarrow> string \<Rightarrow> error option \<times> redis" where
  "SetCheckoutCode down r code =
     (if down then (Some ErrRedis, r)
      else (None, r\<lparr>strs := (strs r)(checkoutKey code \<mapsto> ''1'')\<rparr>))"

definition CheckoutCodeExists :: "bool \<Rightarrow> redis \<Rightarrow> string \<Rightarrow> error + bool" where
  "CheckoutCodeExists down r code =
     (if down then Inl ErrRedis else Inr (strs r (checkoutKey code) \<noteq> None))"

definition RemoveCheckoutCode :: "bool \<Rightarrow> redis \<Rightarrow> string \<Rightarrow> error option \<times> redis" where
  "RemoveCheckoutCode down r code =
     (if down then (Some ErrRedis, r)
      else (None, r\<lparr>strs := (strs r)(checkoutKey code := None)\<rparr>))"

definition HasUserCheckedOutItem ::
  "bool \<Rightarrow> redis \<Rightarrow> string \<Rightarrow> string \<Rightarrow> string \<Rightarrow> error + bool" where
  "HasUserCheckedOutItem down r saleID userID itemID =
     (if down then Inl ErrRedis else Inr (itemID \<in> sets r (checkedItemsKey userID saleID)))"

definition AddUserCheckedOutItem ::
  "bool \<Rightarrow> redis \<Rightarrow> string \<Rightarrow> string \<Rightarrow> string \<Rightarrow> error option \<times> redis" where
  "AddUserCheckedOutItem down r saleID userID itemID =
     (if down then (Some ErrRedis, r)
      else (None, r\<lparr>sets := (sets r)
                     (checkedItemsKey userID saleID :=
                        insert itemID (sets r (checkedItemsKey userID saleID)))\<rparr>))"

definition GetSaleItemCount :: "bool \<Rightarrow> redis \<Rightarrow> string \<Rightarrow> error + int" where
  "GetSaleItemCount down r saleID =
     (if down then Inl ErrRedis else Inr (luaGET r (saleItemsSoldKey saleID)))"

text \<open>
  \<^verbatim>\<open>IncrementCounters\<close> runs an inline script: \<^verbatim>\<open>INCRBY\<close> on the sale counter, then
  on the user counter (and \<^verbatim>\<open>EXPIRE\<close>, outside the model). An \<^verbatim>\<open>INCRBY\<close> that
  fails ends the script with an error.
\<close>

definition IncrementCounters ::
  "rendering \<Rightarrow> bool \<Rightarrow> redis \<Rightarrow> string \<Rightarrow> string \<Rightarrow> int \<Rightarrow> error option \<times> redis" where
  "IncrementCounters render down r saleID userID itemCount =
     (if down then (Some ErrRedis, r)
      else let item_count = tonumber itemCount
           in case luaINCRBY render r (saleItemsSoldKey saleID) item_count of
                None \<Rightarrow> (Some ErrRedis, r)
              | Some r1 \<Rightarrow>
                  (case luaINCRBY render r1 (userCountKey userID saleID) item_count of
                     None \<Rightarrow> (Some ErrRedis, r1)
                   | Some r2 \<Rightarrow> (None, r2)))"

text \<open>\<^verbatim>\<open>DistributedLock\<close> is \<^verbatim>\<open>SETNX lock:key "1"\<close>; \<^verbatim>\<open>ReleaseLock\<close> is \<^verbatim>\<open>DEL\<close>.\<close>

definition DistributedLock :: "bool \<Rightarrow> redis \<Rightarrow> string \<Rightarrow> (error + bool) \<times> redis" where
  "DistributedLock down r key =
     (if down then (Inl ErrRedis, r)
      else if strs r (lockKeyOf key) = None
           then (Inr True, r\<lparr>strs := (strs r)(lockKeyOf key \<mapsto> ''1'')\<rparr>)
           else (Inr False, r))"

definition ReleaseLock :: "bool \<Rightarrow> redis \<Rightarrow> string \<Rightarrow> error option \<times> redis" where
  "ReleaseLock down r key =
     (if down then (Some ErrRedis, r)
      else (None, r\<lparr>strs := (strs r)(lockKeyOf key := None)\<rparr>))"

section \<open>The domain\<close>

text \<open>Instants are integers (nanoseconds since the epoch).\<close>

record Sale =
  sale_ID :: string
  StartedAt :: int
  EndedAt :: int
  TotalItems :: int
  ItemsSold :: int
  sale_CreatedAt :: int

text \<open>\<^verbatim>\<open>now.After(s.StartedAt) && now.Before(s.EndedAt)\<close>\<close>

definition IsActive :: "Sale \<Rightarrow> int \<Rightarrow> bool" where
  "IsActive s now = (now > StartedAt s \<and> now < EndedAt s)"

text \<open>
  An item, as the row of table \<^verbatim>\<open>items\<close>: the nullable columns
  \<^verbatim>\<open>sold_to_user_id\<close> and \<^verbatim>\<open>sold_at\<close> are options.
\<close>

record Item =
  item_ID :: string
  item_SaleID :: string
  Name :: string
  ImageURL :: string
  Sold :: bool
  SoldToUserID :: "string option"
  SoldAt :: "int option"
  item_CreatedAt :: int

definition IsSold :: "Item \<Rightarrow> bool" where
  "IsSold i = Sold i"

definition BelongsToSale :: "Item \<Rightarrow> string \<Rightarrow> bool" where
  "BelongsToSale i saleID = (item_SaleID i = saleID)"

record Checkout =
  Code :: string
  SaleID :: string
  UserID :: string
  ItemIDs :: "string list"
  CreatedAt :: int

definition NewCheckout ::
  "int \<Rightarrow> string \<Rightarrow> string \<Rightarrow> string \<Rightarrow> string list \<Rightarrow> error + Checkout" where
  "NewCheckout now code saleID userID itemIDs =
     (if code = [] then Inl (ErrMsg ''checkout code cannot be empty'')
      else if saleID = [] then Inl (ErrMsg ''sale id cannot be empty'')
      else if userID = [] then Inl (ErrMsg ''user id cannot be empty'')
      else if length itemIDs = 0 then Inl (ErrMsg ''item ids cannot be empty'')
      else Inr \<lparr>Code = code, SaleID = saleID, UserID = userID, ItemIDs = itemIDs,
                 CreatedAt = now\<rparr>)"

definition AddItem :: "Checkout \<Rightarrow> string \<Rightarrow> error + Checkout" where
  "AddItem c itemID =
     (if itemID \<in> set (ItemIDs c) then Inl (ErrMsg ''item already in checkout'')
      else Inr (c\<lparr>ItemIDs := ItemIDs c @ [itemID]\<rparr>))"

definition ItemCount :: "Checkout \<Rightarrow> int" where
  "ItemCount c = int (length (ItemIDs c))"

record UserLimits =
  CurrentItemCount :: int
  ul_MaxItemsPerUser :: int

record PurchaseService =
  svc_maxItemsPerSale :: int
  svc_maxItemsPerUser :: int

definition NewPurchaseService :: "int \<Rightarrow> int \<Rightarrow> PurchaseService" where
  "NewPurchaseService maxPerSale maxPerUser =
     \<lparr>svc_maxItemsPerSale = maxPerSale, svc_maxItemsPerUser = maxPerUser\<rparr>"

definition ValidatePurchase ::
  "PurchaseService \<Rightarrow> int \<Rightarrow> Sale \<Rightarrow> UserLimits \<Rightarrow> Item list \<Rightarrow> error option" where
  "ValidatePurchase s now sale userLimits items =
     (if \<not> IsActive sale now then Some ErrSaleNotActive
      else if length items = 0 then Some ErrNoItemsToPurchase
      else if ItemsSold sale + int (length items) > svc_maxItemsPerSale s
           then Some ErrSaleLimitExceeded
      else if CurrentItemCount userLimits + int (length items) > svc_maxItemsPerUser s
           then Some ErrUserLimitExceeded
      else if \<not> list_all (\<lambda>item. BelongsToSale item (sale_ID sale)) items
           then Some ErrItemNotInSale
      else None)"

record PurchaseItemResult =
  pir_ID :: string
  pir_Name :: string
  pir_Sold :: bool

record PurchaseResult =
  Success :: bool
  Items :: "PurchaseItemResult list"
  TotalPurchased :: int
  FailedCount :: int

definition CalculatePurchaseResult ::
  "PurchaseService \<Rightarrow> Item list \<Rightarrow> string list \<Rightarrow> PurchaseResult" where
  "CalculatePurchaseResult s attemptedItems successfulPurchases =
     \<lparr>Success = (length successfulPurchases > 0),
      Items = map (\<lambda>item. \<lparr>pir_ID = item_ID item, pir_Name = Name item,
                              pir_Sold = (item_ID item \<in> set successfulPurchases)\<rparr>)
                  attemptedItems,
      TotalPurchased = int (length successfulPurchases),
      FailedCount = int (length attemptedItems) - int (length successfulPurchases)\<rparr>"

section \<open>The durable store\<close>

text \<open>
  The tables of \<^verbatim>\<open>migrations/001_initial_schema.up.sql\<close> that the engine reads and
  writes. \<^verbatim>\<open>items\<close> and \<^verbatim>\<open>purchase_results\<close> are maps from their primary key; the
  other tables are lists of rows in insertion order. Row identifiers, random strings in
  the source, are drawn from the counter \<open>next_id\<close>, so two rows never share one.
  \<open>open_txs\<close> counts the transactions begun and neither committed nor rolled back.
\<close>

record attempt_row =
  ca_id :: nat
  ca_checkout_code :: string
  ca_sale_id :: string
  ca_user_id :: string
  ca_created_at :: int

record checkout_item_row =
  ci_id :: nat
  ci_attempt_id :: nat
  ci_item_id :: string
  ci_added_at :: int

record db =
  tbl_sales :: "Sale list"
  tbl_items :: "string \<rightharpoonup> Item"
  tbl_checkout_attempts :: "attempt_row list"
  tbl_checkout_items :: "checkout_item_row list"
  tbl_purchase_results :: "string \<rightharpoonup> PurchaseResult"
  next_id :: nat
  open_txs :: nat

subsection \<open>SaleRepository\<close>

text \<open>
  As for the cache, \<open>down\<close> says that the statement fails with a driver error and
  changes nothing. \<^verbatim>\<open>GetActiveSale\<close> selects
  \<^verbatim>\<open>WHERE started_at <= NOW() AND ended_at > NOW() ORDER BY started_at DESC LIMIT 1\<close>.
\<close>

definition GetActiveSale :: "bool \<Rightarrow> db \<Rightarrow> int \<Rightarrow> error + Sale" where
  "GetActiveSale down d now =
     (if down then Inl ErrSQL
      else case sort_key (\<lambda>s. - StartedAt s)
                  (filter (\<lambda>s. StartedAt s \<le> now \<and> EndedAt s > now) (tbl_sales d)) of
             [] \<Rightarrow> Inl ErrSaleNotFound
           | s # rest \<Rightarrow> Inr s)"

definition GetSaleByID :: "bool \<Rightarrow> db \<Rightarrow> string \<Rightarrow> error + Sale" where
  "GetSaleByID down d saleID =
     (if down then Inl ErrSQL
      else case find (\<lambda>s. sale_ID s = saleID) (tbl_sales d) of
             None \<Rightarrow> Inl ErrSaleNotFound
           | Some s \<Rightarrow> Inr s)"

definition UpdateSale :: "bool \<Rightarrow> db \<Rightarrow> Sale \<Rightarrow> error option \<times> db" where
  "UpdateSale down d s =
     (if down then (Some ErrSQL, d)
      else (None, d\<lparr>tbl_sales :=
              map (\<lambda>row. if sale_ID row = sale_ID s
                          then row\<lparr>StartedAt := StartedAt s, EndedAt := EndedAt s,
                                   TotalItems := TotalItems s, ItemsSold := ItemsSold s\<rparr>
                          else row) (tbl_sales d)\<rparr>))"

definition GetItemByID :: "bool \<Rightarrow> db \<Rightarrow> string \<Rightarrow> error + Item" where
  "GetItemByID down d itemID =
     (if down then Inl ErrSQL
      else case tbl_items d itemID of
             None \<Rightarrow> Inl ErrItemNotFound
           | Some i \<Rightarrow> Inr i)"

text \<open>
  \<^verbatim>\<open>UPDATE items SET sold = TRUE, sold_to_user_id = $2, sold_at = NOW()
  WHERE id = $1 AND sold = FALSE\<close>; the result is \<^verbatim>\<open>rowsAffected > 0\<close>.
\<close>

definition MarkItemAsSold ::
  "bool \<Rightarrow> int \<Rightarrow> db \<Rightarrow> string \<Rightarrow> string \<Rightarrow> (error + bool) \<times> db" where
  "MarkItemAsSold down now d itemID userID =
     (if down then (Inl ErrSQL, d)
      else case tbl_items d itemID of
             None \<Rightarrow> (Inr False, d)
           | Some i \<Rightarrow>
               if Sold i then (Inr False, d)
               else (Inr True,
                     d\<lparr>tbl_items := (tbl_items d)
                          (itemID \<mapsto> i\<lparr>Sold := True, SoldToUserID := Some userID,
                                         SoldAt := Some now\<rparr>)\<rparr>))"

text \<open>\<^verbatim>\<open>INSERT ... ON CONFLICT (checkout_code) DO NOTHING\<close>\<close>

definition SavePurchaseResult ::
  "bool \<Rightarrow> db \<Rightarrow> string \<Rightarrow> PurchaseResult \<Rightarrow> error option \<times> db" where
  "SavePurchaseResult down d checkoutCode result =
     (if down then (Some ErrSQL, d)
      else case tbl_purchase_results d checkoutCode of
             Some old \<Rightarrow> (None, d)
           | None \<Rightarrow>
               (None, d\<lparr>tbl_purchase_results :=
                          (tbl_purchase_results d)(checkoutCode \<mapsto> result)\<rparr>))"

definition GetPurchaseResult ::
  "bool \<Rightarrow> db \<Rightarrow> string \<Rightarrow> error + PurchaseResult option" where
  "GetPurchaseResult down d checkoutCode =
     (if down then Inl ErrSQL else Inr (tbl_purchase_results d checkoutCode))"

text \<open>
  A serializable transaction works on its own copy \<open>t\<close> of the store, taken by
  \<^verbatim>\<open>BeginTx\<close>; \<^verbatim>\<open>CommitTx\<close> installs the tables it wrote, and a commit that fails
  installs nothing. Either way the transaction is finished. These functions describe a
  transaction during which no other transaction commits, as in the requests that are
  followed from their first call to their last; transactions that overlap are the subject
  of the section on purchases that run at the same time.
\<close>

definition BeginTx :: "bool \<Rightarrow> db \<Rightarrow> (error + db) \<times> db" where
  "BeginTx down d =
     (if down then (Inl ErrSQL, d) else (Inr d, d\<lparr>open_txs := open_txs d + 1\<rparr>))"

definition CommitTx :: "bool \<Rightarrow> db \<Rightarrow> db \<Rightarrow> error option \<times> db" where
  "CommitTx down d t =
     (if down then (Some ErrSQL, d\<lparr>open_txs := open_txs d - 1\<rparr>)
      else (None, d\<lparr>tbl_sales := tbl_sales t, tbl_items := tbl_items t,
                     tbl_purchase_results := tbl_purchase_results t,
                     open_txs := open_txs d - 1\<rparr>))"

definition RollbackTx :: "bool \<Rightarrow> db \<Rightarrow> error option \<times> db" where
  "RollbackTx down d =
     (if down then Some ErrSQL else None, d\<lparr>open_txs := open_txs d - 1\<rparr>)"

subsection \<open>CheckoutRepository\<close>

definition attemptHasCode :: "db \<Rightarrow> string \<Rightarrow> checkout_item_row \<Rightarrow> bool" where
  "attemptHasCode d code ci =
     list_ex (\<lambda>a. ca_id a = ci_attempt_id ci \<and> ca_checkout_code a = code)
             (tbl_checkout_attempts d)"

definition saleExists :: "db \<Rightarrow> string \<Rightarrow> bool" where
  "saleExists d saleID = list_ex (\<lambda>s. sale_ID s = saleID) (tbl_sales d)"

text \<open>
  The latest attempt row of the code
  (\<^verbatim>\<open>ORDER BY created_at DESC LIMIT 1\<close>), with the items of every attempt row of the
  code (\<^verbatim>\<open>JOIN ... WHERE ca.checkout_code = $1 ORDER BY ci.added_at\<close>).
\<close>

definition GetCheckoutByCode :: "bool \<Rightarrow> db \<Rightarrow> string \<Rightarrow> error + Checkout" where
  "GetCheckoutByCode down d code =
     (if down then Inl ErrSQL
      else case sort_key (\<lambda>a. - ca_created_at a)
                  (filter (\<lambda>a. ca_checkout_code a = code) (tbl_checkout_attempts d)) of
             [] \<Rightarrow> Inl ErrCheckoutNotFound
           | a # rest \<Rightarrow>
               Inr \<lparr>Code = ca_checkout_code a, SaleID = ca_sale_id a, UserID = ca_user_id a,
                    ItemIDs = map ci_item_id
                                (sort_key ci_added_at
                                   (filter (attemptHasCode d code) (tbl_checkout_items d))),
                    CreatedAt = ca_created_at a\<rparr>)"

text \<open>
  \<^verbatim>\<open>CreateCheckout\<close> inserts the attempt row and one item row per item in one
  transaction; a foreign key (\<^verbatim>\<open>sale_id\<close>, \<^verbatim>\<open>item_id\<close>) without its row or a repeated
  item (\<^verbatim>\<open>UNIQUE(checkout_attempt_id, item_id)\<close>) makes a statement fail, and the
  deferred rollback leaves the store as it was.
\<close>

definition CreateCheckout :: "bool \<Rightarrow> db \<Rightarrow> Checkout \<Rightarrow> error option \<times> db" where
  "CreateCheckout down d checkout =
     (if down \<or> \<not> saleExists d (SaleID checkout)
         \<or> list_ex (\<lambda>itemID. tbl_items d itemID = None) (ItemIDs checkout)
         \<or> \<not> distinct (ItemIDs checkout)
      then (Some ErrSQL, d)
      else (None,
            d\<lparr>tbl_checkout_attempts := tbl_checkout_attempts d @
                 [\<lparr>ca_id = next_id d, ca_checkout_code = Code checkout,
                   ca_sale_id = SaleID checkout, ca_user_id = UserID checkout,
                   ca_created_at = CreatedAt checkout\<rparr>],
              tbl_checkout_items := tbl_checkout_items d @
                 map (\<lambda>(i, itemID). \<lparr>ci_id = next_id d + 1 + i, ci_attempt_id = next_id d,
                                       ci_item_id = itemID, ci_added_at = CreatedAt checkout\<rparr>)
                     (enumerate 0 (ItemIDs checkout)),
              next_id := next_id d + 1 + length (ItemIDs checkout)\<rparr>))"

text \<open>
  \<^verbatim>\<open>AddItemToCheckout\<close> takes the first attempt row of the code
  (\<^verbatim>\<open>SELECT id FROM checkout_attempts WHERE checkout_code = $1\<close>), refuses an item that
  the row already has, and inserts the item row.
\<close>

definition AddItemToCheckout ::
  "bool \<Rightarrow> int \<Rightarrow> db \<Rightarrow> string \<Rightarrow> string \<Rightarrow> error option \<times> db" where
  "AddItemToCheckout down now d checkoutCode itemID =
     (if down then (Some ErrSQL, d)
      else case filter (\<lambda>a. ca_checkout_code a = checkoutCode) (tbl_checkout_attempts d) of
             [] \<Rightarrow> (Some ErrCheckoutNotFound, d)
           | a # rest \<Rightarrow>
               if list_ex (\<lambda>ci. ci_attempt_id ci = ca_id a \<and> ci_item_id ci = itemID)
                          (tbl_checkout_items d)
               then (Some ErrItemAlreadyInCheckout, d)
               else if tbl_items d itemID = None then (Some ErrSQL, d)
               else (None,
                     d\<lparr>tbl_checkout_items := tbl_checkout_items d @
                          [\<lparr>ci_id = next_id d, ci_attempt_id = ca_id a,
                            ci_item_id = itemID, ci_added_at = now\<rparr>],
                       next_id := next_id d + 1\<rparr>))"

text \<open>
  \<^verbatim>\<open>LogCheckoutAttempt\<close> inserts a new attempt row for the code, with one item row.
\<close>

definition LogCheckoutAttempt ::
  "bool \<Rightarrow> int \<Rightarrow> db \<Rightarrow> string \<Rightarrow> string \<Rightarrow> string \<Rightarrow> string \<Rightarrow> error option \<times> db" where
  "LogCheckoutAttempt down now d saleID userID checkoutCode itemID =
     (if down \<or> \<not> saleExists d saleID \<or> tbl_items d itemID = None then (Some ErrSQL, d)
      else (None,
            d\<lparr>tbl_checkout_attempts := tbl_checkout_attempts d @
                 [\<lparr>ca_id = next_id d, ca_checkout_code = checkoutCode, ca_sale_id = saleID,
                   ca_user_id = userID, ca_created_at = now\<rparr>],
              tbl_checkout_items := tbl_checkout_items d @
                 [\<lparr>ci_id = next_id d + 1, ci_attempt_id = next_id d, ci_item_id = itemID,
                   ci_added_at = now\<rparr>],
              next_id := next_id d + 2\<rparr>))"

text \<open>
  \<^verbatim>\<open>DELETE FROM checkout_attempts WHERE checkout_code = $1\<close>, which cascades to the
  item rows of the deleted attempts.
\<close>

definition DeleteCheckout :: "bool \<Rightarrow> db \<Rightarrow> string \<Rightarrow> error option \<times> db" where
  "DeleteCheckout down d checkoutCode =
     (if down then (Some ErrSQL, d)
      else (None,
            d\<lparr>tbl_checkout_attempts :=
                 filter (\<lambda>a. ca_checkout_code a \<noteq> checkoutCode) (tbl_checkout_attempts d),
              tbl_checkout_items :=
                 filter (\<lambda>ci. \<not> attemptHasCode d checkoutCode ci) (tbl_checkout_items d)\<rparr>))"

section \<open>The environment of a request\<close>

text \<open>
  What a request meets and the code does not decide: the instant \<open>env_now\<close> (one per
  request, read by \<^verbatim>\<open>time.Now()\<close> and by the store's \<^verbatim>\<open>NOW()\<close>), which calls to
  the stores fail (\<open>env_fails c attempt i\<close>: call site \<open>c\<close>, in purchase attempt
  \<open>attempt\<close>, for the \<open>i\<close>-th item of a loop), the SHA-256 prefix function of the
  filter, the hex string that the random source yields for a new checkout code, and how
  the cache server renders a large number of a script.
\<close>

datatype call =
    AtGetActiveSale | AtBloomContains | AtGetUserItemCount | AtGetUserCheckoutCount
  | AtHasUserCheckedOutItem | AtGetItemByID | AtBloomAdd | AtGetUserCheckoutCode
  | AtGenerateCheckoutCode | AtSetUserCheckoutCode | AtSetCheckoutCode
  | AtGetCheckoutByCode | AtCreateCheckout | AtAddItemToCheckout
  | AtIncrementUserCheckoutCount | AtAddUserCheckedOutItem
  | AtCheckoutCodeExists | AtDistributedLock | AtReleaseLock
  | AtRemoveUserCheckoutCode | AtRemoveCheckoutCode | AtDeleteCheckout
  | AtLogCheckoutAttempt | AtGetSaleItemCount | AtBeginTx | AtRollbackTx
  | AtGetPurchaseResult | AtGetSaleByID | AtMarkItemAsSold | AtIncrementCounters
  | AtUpdateSale | AtSavePurchaseResult | AtCommitTx

record env =
  env_now :: int
  env_fails :: "call \<Rightarrow> nat \<Rightarrow> nat \<Rightarrow> bool"
  env_sha :: digest
  env_randomHex :: string
  env_render :: rendering

type_synonym world = "db \<times> redis"

section \<open>The checkout handler\<close>

record CheckoutCommand =
  cmd_UserID :: string
  cmd_ItemID :: string

record CheckoutResponse =
  resp_Code :: string
  resp_ItemsCount :: int
  resp_SaleEndsAt :: int

definition GenerateCheckoutCode :: "bool \<Rightarrow> string \<Rightarrow> string \<Rightarrow> string \<Rightarrow> error + string" where
  "GenerateCheckoutCode down randomHex saleID userID =
     (if down then Inl (ErrMsg ''rand.Read'')
      else Inr (''CHK-'' @ saleID @ ''-'' @ randomHex))"

text \<open>
  \<^verbatim>\<open>Handle\<close>, lines 102 to 119: the user's checkout code is read from the cache; on an
  error or an empty answer a new code is generated and stored under both keys, errors of
  the two writes being logged only.
\<close>

definition obtainCheckoutCode ::
  "env \<Rightarrow> Sale \<Rightarrow> redis \<Rightarrow> CheckoutCommand \<Rightarrow> (error + string) \<times> redis" where
  "obtainCheckoutCode env activeSale r cmd =
     (case GetUserCheckoutCode (env_fails env AtGetUserCheckoutCode 0 0) r
             (sale_ID activeSale) (cmd_UserID cmd) of
        Inr (c # cs) \<Rightarrow> (Inr (c # cs), r)
      | other \<Rightarrow>
          (case GenerateCheckoutCode (env_fails env AtGenerateCheckoutCode 0 0)
                  (env_randomHex env) (sale_ID activeSale) (cmd_UserID cmd) of
             Inl e \<Rightarrow> (Inl ErrTransactionFailed, r)
           | Inr checkoutCode \<Rightarrow>
               (case SetUserCheckoutCode (env_fails env AtSetUserCheckoutCode 0 0) r
                       (sale_ID activeSale) (cmd_UserID cmd) checkoutCode of
                  (err1, r1) \<Rightarrow>
                    (case SetCheckoutCode (env_fails env AtSetCheckoutCode 0 0) r1 checkoutCode of
                       (err2, r2) \<Rightarrow> (Inr checkoutCode, r2)))))"

text \<open>
  \<^verbatim>\<open>Handle\<close>, lines 121 to 145: a checkout that cannot be loaded is created with the
  item; a loaded one gets the item appended, in memory and then in the store.
\<close>

definition storeCheckout ::
  "env \<Rightarrow> Sale \<Rightarrow> db \<Rightarrow> CheckoutCommand \<Rightarrow> string \<Rightarrow> (error + Checkout) \<times> db" where
  "storeCheckout env activeSale d cmd checkoutCode =
     (case GetCheckoutByCode (env_fails env AtGetCheckoutByCode 0 0) d checkoutCode of
        Inl e \<Rightarrow>
          (case NewCheckout (env_now env) checkoutCode (sale_ID activeSale) (cmd_UserID cmd)
                  [cmd_ItemID cmd] of
             Inl e' \<Rightarrow> (Inl e', d)
           | Inr checkout \<Rightarrow>
               (case CreateCheckout (env_fails env AtCreateCheckout 0 0) d checkout of
                  (Some e', d') \<Rightarrow> (Inl e', d')
                | (None, d') \<Rightarrow> (Inr checkout, d')))
      | Inr checkout \<Rightarrow>
          (case AddItem checkout (cmd_ItemID cmd) of
             Inl e' \<Rightarrow> (Inl ErrUserAlreadyCheckedOutItem, d)
           | Inr checkout' \<Rightarrow>
               (case AddItemToCheckout (env_fails env AtAddItemToCheckout 0 0) (env_now env) d
                       checkoutCode (cmd_ItemID cmd) of
                  (Some e', d') \<Rightarrow> (Inl e', d')
                | (None, d') \<Rightarrow> (Inr checkout', d'))))"

text \<open>\<^verbatim>\<open>Handle\<close>, from line 102 to the end.\<close>

definition Handle_checkout ::
  "env \<Rightarrow> Sale \<Rightarrow> world \<Rightarrow> CheckoutCommand \<Rightarrow> (error + CheckoutResponse) \<times> world" where
  "Handle_checkout env activeSale w cmd =
     (case w of (d, r) \<Rightarrow>
      case obtainCheckoutCode env activeSale r cmd of
        (Inl e, r1) \<Rightarrow> (Inl e, (d, r1))
      | (Inr checkoutCode, r1) \<Rightarrow>
          (case storeCheckout env activeSale d cmd checkoutCode of
             (Inl e, d1) \<Rightarrow> (Inl e, (d1, r1))
           | (Inr checkout, d1) \<Rightarrow>
               (case IncrementUserCheckoutCount (env_fails env AtIncrementUserCheckoutCount 0 0)
                       r1 (sale_ID activeSale) (cmd_UserID cmd) of
                  (err1, r2) \<Rightarrow>
                    (case AddUserCheckedOutItem (env_fails env AtAddUserCheckedOutItem 0 0) r2
                            (sale_ID activeSale) (cmd_UserID cmd) (cmd_ItemID cmd) of
                       (err2, r3) \<Rightarrow>
                         (Inr \<lparr>resp_Code = checkoutCode, resp_ItemsCount = ItemCount checkout,
                               resp_SaleEndsAt = EndedAt activeSale\<rparr>,
                          (d1, r3))))))"

text \<open>
  \<^verbatim>\<open>Handle\<close>, from line 84 to the end: the authoritative checks of the item in the
  durable store, then the checkout.
\<close>

definition Handle_item ::
  "env \<Rightarrow> Sale \<Rightarrow> world \<Rightarrow> CheckoutCommand \<Rightarrow> (error + CheckoutResponse) \<times> world" where
  "Handle_item env activeSale w cmd =
     (case w of (d, r) \<Rightarrow>
      case GetItemByID (env_fails env AtGetItemByID 0 0) d (cmd_ItemID cmd) of
        Inl e \<Rightarrow> (Inl e, w)
      | Inr item \<Rightarrow>
          if item_SaleID item \<noteq> sale_ID activeSale then (Inl ErrItemNotInSale, w)
          else if IsSold item
          then (Inl ErrItemAlreadySold,
                (d, snd (AddItemToBloomFilter (env_fails env AtBloomAdd 0 0)
                           (env_sha env) r (cmd_ItemID cmd))))
          else Handle_checkout env activeSale w cmd)"

text \<open>
  \<^verbatim>\<open>CheckoutHandler.Handle\<close>. Each of the three admission checks against the cache
  rejects only when the call returned no error and a rejecting answer
  (\<^verbatim>\<open>if err != nil { log } else if ... { return }\<close>).
\<close>

definition Handle ::
  "env \<Rightarrow> int \<Rightarrow> world \<Rightarrow> CheckoutCommand \<Rightarrow> (error + CheckoutResponse) \<times> world" where
  "Handle env maxItemsLimit w cmd =
     (case w of (d, r) \<Rightarrow>
      case GetActiveSale (env_fails env AtGetActiveSale 0 0) d (env_now env) of
        Inl e \<Rightarrow> (Inl ErrSaleNotFound, w)
      | Inr activeSale \<Rightarrow>
          if \<not> IsActive activeSale (env_now env) then (Inl ErrSaleNotActive, w)
          else if ItemExistsInBloomFilter (env_fails env AtBloomContains 0 0) (env_sha env) r
                    (cmd_ItemID cmd) = Inr True
          then (Inl ErrItemAlreadySold, w)
          else if (case GetAvailableCheckoutSlots (env_fails env AtGetUserItemCount 0 0)
                          (env_fails env AtGetUserCheckoutCount 0 0) r (sale_ID activeSale)
                          (cmd_UserID cmd) maxItemsLimit of
                     Inl e \<Rightarrow> False
                   | Inr availableSlots \<Rightarrow> availableSlots \<le> 0)
          then (Inl ErrUserLimitExceeded, w)
          else if HasUserCheckedOutItem (env_fails env AtHasUserCheckedOutItem 0 0) r
                    (sale_ID activeSale) (cmd_UserID cmd) (cmd_ItemID cmd) = Inr True
          then (Inl ErrUserAlreadyCheckedOutItem, w)
          else Handle_item env activeSale w cmd)"

section \<open>The purchase engine\<close>

record PurchaseUseCase =
  purchaseSvc :: PurchaseService
  maxItemsPerSale :: int
  maxItemsPerUser :: int
  retryAttempts :: nat

definition NewPurchaseUseCase :: PurchaseUseCase where
  "NewPurchaseUseCase =
     \<lparr>purchaseSvc = NewPurchaseService 10000 10, maxItemsPerSale = 10000,
      maxItemsPerUser = 10, retryAttempts = 2\<rparr>"

definition isBusinessLogicError :: "error \<Rightarrow> bool" where
  "isBusinessLogicError err =
     (err = ErrCheckoutNotFound \<or> err = ErrSaleNotFound \<or> err = ErrUserLimitExceeded
      \<or> err = ErrCheckoutAlreadyProcessed)"

text \<open>
  \<^verbatim>\<open>attemptPurchase\<close>, lines 110 to 114: one audit row per item of the checkout, an
  error being logged only. \<open>a\<close> is the number of the attempt, \<open>i\<close> the index of the
  item.
\<close>

fun logAttempts :: "env \<Rightarrow> nat \<Rightarrow> Checkout \<Rightarrow> nat \<Rightarrow> string list \<Rightarrow> db \<Rightarrow> db" where
  "logAttempts env a checkout i [] d = d"
| "logAttempts env a checkout i (itemID # rest) d =
     logAttempts env a checkout (Suc i) rest
       (snd (LogCheckoutAttempt (env_fails env AtLogCheckoutAttempt a i) (env_now env) d
               (SaleID checkout) (UserID checkout) (Code checkout) itemID))"

text \<open>Lines 169 to 177: the items are read in the transaction; one that fails is skipped.\<close>

fun loadItems :: "env \<Rightarrow> nat \<Rightarrow> db \<Rightarrow> nat \<Rightarrow> string list \<Rightarrow> Item list" where
  "loadItems env a t i [] = []"
| "loadItems env a t i (itemID # rest) =
     (case GetItemByID (env_fails env AtGetItemByID a i) t itemID of
        Inl e \<Rightarrow> loadItems env a t (Suc i) rest
      | Inr item \<Rightarrow> item # loadItems env a t (Suc i) rest)"

text \<open>
  Lines 192 to 215, the per-item loop over the transaction \<open>t\<close>, the cache \<open>r\<close> and
  \<^verbatim>\<open>successfulPurchases\<close>: an item the filter reports is skipped; otherwise the
  conditional update runs, and unless it returns an error the item is added to the
  filter, and to \<^verbatim>\<open>successfulPurchases\<close> when a row was affected.
\<close>

fun markItems ::
  "env \<Rightarrow> nat \<Rightarrow> string \<Rightarrow> nat \<Rightarrow> Item list \<Rightarrow> db \<times> redis \<times> string list
   \<Rightarrow> db \<times> redis \<times> string list" where
  "markItems env a userID i [] s = s"
| "markItems env a userID i (item # rest) (t, r, successfulPurchases) =
     (if ItemExistsInBloomFilter (env_fails env AtBloomContains a i) (env_sha env) r
           (item_ID item) = Inr True
      then markItems env a userID (Suc i) rest (t, r, successfulPurchases)
      else case MarkItemAsSold (env_fails env AtMarkItemAsSold a i) (env_now env) t
                  (item_ID item) userID of
             (Inl e, t') \<Rightarrow> markItems env a userID (Suc i) rest (t', r, successfulPurchases)
           | (Inr success, t') \<Rightarrow>
               markItems env a userID (Suc i) rest
                 (t',
                  snd (AddItemToBloomFilter (env_fails env AtBloomAdd a i) (env_sha env) r
                         (item_ID item)),
                  if success then successfulPurchases @ [item_ID item]
                  else successfulPurchases))"

text \<open>
  Lines 217 to 253: the result is computed, the cache counters are incremented, the sale
  row and the idempotency row are written in the transaction, and the transaction is
  committed. \<open>d\<close> is the committed store, \<open>t\<close> the transaction.
\<close>

definition finishPurchase ::
  "env \<Rightarrow> PurchaseUseCase \<Rightarrow> nat \<Rightarrow> world \<Rightarrow> db \<Rightarrow> Checkout \<Rightarrow> Sale \<Rightarrow> Item list
   \<Rightarrow> string list \<Rightarrow> (error + PurchaseResult) \<times> world" where
  "finishPurchase env uc a w t checkout saleEntity loaded successfulPurchases =
     (case w of (d, r) \<Rightarrow>
      let result = CalculatePurchaseResult (purchaseSvc uc) loaded successfulPurchases;
          r1 = (if length successfulPurchases > 0
                then snd (IncrementCounters (env_render env) (env_fails env AtIncrementCounters a 0) r
                            (SaleID checkout) (UserID checkout)
                            (int (length successfulPurchases)))
                else r)
      in case (if length successfulPurchases > 0
               then UpdateSale (env_fails env AtUpdateSale a 0) t
                      (saleEntity\<lparr>ItemsSold :=
                         ItemsSold saleEntity + int (length successfulPurchases)\<rparr>)
               else (None, t)) of
           (Some e, t1) \<Rightarrow> (Inl (ErrWrap ''failed to update sale'' e), (d, r1))
         | (None, t1) \<Rightarrow>
             (case SavePurchaseResult (env_fails env AtSavePurchaseResult a 0) t1
                     (Code checkout) result of
                (Some e, t2) \<Rightarrow> (Inl (ErrWrap ''failed to save purchase result'' e), (d, r1))
              | (None, t2) \<Rightarrow>
                  (case CommitTx (env_fails env AtCommitTx a 0) d t2 of
                     (Some e, d1) \<Rightarrow>
                       (Inl (ErrWrap ''failed to commit transaction'' e), (d1, r1))
                   | (None, d1) \<Rightarrow>
                       if length successfulPurchases = 0 then (Inl ErrAllItemsSold, (d1, r1))
                       else (Inr result, (d1, r1)))))"

text \<open>
  Lines 155 to 215, inside the transaction. The deferred rollback tests the variable
  \<^verbatim>\<open>err\<close> of the function's scope, which only the results of
  \<^verbatim>\<open>GetPurchaseResult\<close> and \<^verbatim>\<open>GetSaleByID\<close> are assigned to; every other error is
  returned from a shadowing \<^verbatim>\<open>err\<close> or as a fresh value, and then no rollback runs.
\<close>

definition attemptInTx ::
  "env \<Rightarrow> PurchaseUseCase \<Rightarrow> nat \<Rightarrow> world \<Rightarrow> db \<Rightarrow> Checkout
   \<Rightarrow> (error + PurchaseResult) \<times> world" where
  "attemptInTx env uc a w t checkout =
     (case w of (d, r) \<Rightarrow>
      case GetPurchaseResult (env_fails env AtGetPurchaseResult a 0) t (Code checkout) of
        Inl e \<Rightarrow> (Inl e, (snd (RollbackTx (env_fails env AtRollbackTx a 0) d), r))
      | Inr (Some existingResult) \<Rightarrow> (Inl ErrCheckoutAlreadyProcessed, w)
      | Inr None \<Rightarrow>
          (case GetSaleByID (env_fails env AtGetSaleByID a 0) t (SaleID checkout) of
             Inl e \<Rightarrow>
               (Inl (ErrWrap ''failed to get sale'' e),
                (snd (RollbackTx (env_fails env AtRollbackTx a 0) d), r))
           | Inr saleEntity \<Rightarrow>
               let loaded = loadItems env a t 0 (ItemIDs checkout)
               in if length loaded = 0 then (Inl (ErrMsg ''no valid items found''), w)
                  else case ValidatePurchase (purchaseSvc uc) (env_now env) saleEntity
                              \<lparr>CurrentItemCount = 0,
                               ul_MaxItemsPerUser = maxItemsPerUser uc\<rparr> loaded of
                         Some e \<Rightarrow> (Inl (ErrWrap ''purchase validation failed'' e), w)
                       | None \<Rightarrow>
                           (case markItems env a (UserID checkout) 0 loaded (t, r, []) of
                              (t1, r1, successfulPurchases) \<Rightarrow>
                                finishPurchase env uc a (d, r1) t1 checkout saleEntity
                                  loaded successfulPurchases)))"

text \<open>
  \<^verbatim>\<open>attemptPurchase\<close>: the audit rows, the advisory check of the two cache counters
  (a read that fails counts as 0), then the transaction.
\<close>

definition attemptPurchase ::
  "env \<Rightarrow> PurchaseUseCase \<Rightarrow> nat \<Rightarrow> world \<Rightarrow> Checkout \<Rightarrow> (error + PurchaseResult) \<times> world" where
  "attemptPurchase env uc a w checkout =
     (case w of (d0, r) \<Rightarrow>
      let d = logAttempts env a checkout 0 (ItemIDs checkout) d0;
          currentUserCount =
            (case GetUserItemCount (env_fails env AtGetUserItemCount a 0) r
                    (SaleID checkout) (UserID checkout) of
               Inl e \<Rightarrow> 0 | Inr n \<Rightarrow> n);
          currentSaleCount =
            (case GetSaleItemCount (env_fails env AtGetSaleItemCount a 0) r
                    (SaleID checkout) of
               Inl e \<Rightarrow> 0 | Inr n \<Rightarrow> n)
      in if currentSaleCount + int (length (ItemIDs checkout)) > maxItemsPerSale uc
         then (Inl ErrSaleLimitExceeded, (d, r))
         else if currentUserCount + int (length (ItemIDs checkout)) > maxItemsPerUser uc
         then (Inl ErrUserLimitExceeded, (d, r))
         else case BeginTx (env_fails env AtBeginTx a 0) d of
                (Inl e, d1) \<Rightarrow> (Inl (ErrWrap ''failed to begin transaction'' e), (d1, r))
              | (Inr t, d1) \<Rightarrow> attemptInTx env uc a (d1, r) t checkout)"

text \<open>
  The retry loop of \<^verbatim>\<open>ExecutePurchase\<close>: \<open>k\<close> attempts are left, \<open>prev\<close> is the
  pair \<^verbatim>\<open>(result, err)\<close> so far (\<open>Inr None\<close> for \<^verbatim>\<open>(nil, nil)\<close>).
\<close>

fun purchaseLoop ::
  "env \<Rightarrow> PurchaseUseCase \<Rightarrow> Checkout \<Rightarrow> nat \<Rightarrow> nat \<Rightarrow> error + PurchaseResult option \<Rightarrow> world
   \<Rightarrow> (error + PurchaseResult option) \<times> world" where
  "purchaseLoop env uc checkout attempt 0 prev w = (prev, w)"
| "purchaseLoop env uc checkout attempt (Suc k) prev w =
     (case attemptPurchase env uc attempt w checkout of
        (Inr result, w') \<Rightarrow> (Inr (Some result), w')
      | (Inl e, w') \<Rightarrow>
          if isBusinessLogicError e then (Inl e, w')
          else purchaseLoop env uc checkout (Suc attempt) k (Inl e) w')"

definition cleanupCheckout ::
  "env \<Rightarrow> world \<Rightarrow> string \<Rightarrow> string \<Rightarrow> string \<Rightarrow> error option \<times> world" where
  "cleanupCheckout env w checkoutCode saleID userID =
     (case w of (d, r) \<Rightarrow>
      case RemoveUserCheckoutCode (env_fails env AtRemoveUserCheckoutCode 0 0) r saleID userID of
        (err1, r1) \<Rightarrow>
          (case RemoveCheckoutCode (env_fails env AtRemoveCheckoutCode 0 0) r1 checkoutCode of
             (err2, r2) \<Rightarrow>
               (case DeleteCheckout (env_fails env AtDeleteCheckout 0 0) d checkoutCode of
                  (err3, d1) \<Rightarrow> (err3, (d1, r2)))))"

definition releaseDeferred :: "env \<Rightarrow> string \<Rightarrow> world \<Rightarrow> world" where
  "releaseDeferred env lockKey w =
     (case w of (d, r) \<Rightarrow>
        (d, snd (ReleaseLock (env_fails env AtReleaseLock 0 0) r lockKey)))"

text \<open>
  \<^verbatim>\<open>ExecutePurchase\<close>. The deferred \<^verbatim>\<open>ReleaseLock\<close> runs on every return after the
  lock was acquired.
\<close>

definition ExecutePurchase ::
  "env \<Rightarrow> PurchaseUseCase \<Rightarrow> world \<Rightarrow> string \<Rightarrow> (error + PurchaseResult option) \<times> world" where
  "ExecutePurchase env uc w checkoutCode =
     (case w of (d, r) \<Rightarrow>
      case CheckoutCodeExists (env_fails env AtCheckoutCodeExists 0 0) r checkoutCode of
        Inl e \<Rightarrow> (Inl e, w)
      | Inr exists \<Rightarrow>
          (case GetCheckoutByCode (env_fails env AtGetCheckoutByCode 0 0) d checkoutCode of
             Inl e \<Rightarrow> (Inl ErrCheckoutNotFound, w)
           | Inr checkout \<Rightarrow>
               let r1 = (if \<not> exists
                         then snd (SetCheckoutCode (env_fails env AtSetCheckoutCode 0 0) r
                                     checkoutCode)
                         else r);
                   lockKey = ''purchase:'' @ checkoutCode
               in case DistributedLock (env_fails env AtDistributedLock 0 0) r1 lockKey of
                    (Inl e, r2) \<Rightarrow> (Inl (ErrWrap ''failed to acquire lock'' e), (d, r2))
                  | (Inr locked, r2) \<Rightarrow>
                      if \<not> locked
                      then (Inl (ErrMsg ''another purchase is in progress for this user''),
                            (d, r2))
                      else case purchaseLoop env uc checkout 0 (retryAttempts uc) (Inr None)
                                  (d, r2) of
                             (Inl e, w3) \<Rightarrow> (Inl e, releaseDeferred env lockKey w3)
                           | (Inr result, w3) \<Rightarrow>
                               (Inr result,
                                releaseDeferred env lockKey
                                  (snd (cleanupCheckout env w3 checkoutCode
                                          (SaleID checkout) (UserID checkout))))))"

section \<open>Purchases that run at the same time\<close>

text \<open>
  The functions above take one request from its first call to its last. Several purchase
  attempts may be in flight at once, each in its own transaction on the durable store
  (PostgreSQL, at isolation level \<^verbatim>\<open>SERIALIZABLE\<close>, see \<^verbatim>\<open>BeginTx\<close>), and their calls
  interleave. This section models what such attempts do to table \<^verbatim>\<open>items\<close>, one call
  of one attempt at a time, in any order.

  An attempt in flight (\<^verbatim>\<open>attemptPurchase\<close> from \<^verbatim>\<open>BeginTx\<close> to its return) is a
  record of its local variables and of its transaction: the snapshot of the table that
  the transaction reads, and the rows that it has written. The store holds the committed
  rows, for each row the transaction in progress that has updated it (the row lock), and
  the attempts in flight. What the model takes from the database:
  \<^item> a transaction reads the rows that were committed when its snapshot was taken,
    overlaid with its own writes;
  \<^item> a row updated by a transaction in progress is locked, and an \<^verbatim>\<open>UPDATE\<close> of that
    row by another transaction waits until the first one has ended;
  \<^item> an \<^verbatim>\<open>UPDATE\<close> whose target row was changed by a transaction that committed after
    the snapshot fails (\<^verbatim>\<open>could not serialize access due to concurrent update\<close>) and
    aborts its transaction, whose later statements fail and whose commit rolls back;
  \<^item> a commit installs the written rows and releases the locks; a rollback, or the end
    of the connection, releases them.
\<close>

type_synonym items = "string \<rightharpoonup> Item"

record purchase =
  pu_userID :: string
  pu_now :: int
  pu_items :: "Item list"
  pu_rest :: "Item list"
  pu_successful :: "string list"
  pu_snapshot :: items
  pu_writes :: items
  pu_failed :: bool

record cstore =
  cs_items :: items
  cs_locks :: "string \<rightharpoonup> nat"
  cs_flights :: "nat \<rightharpoonup> purchase"

text \<open>
  \<^verbatim>\<open>BeginTx\<close> and lines 155 to 177 of \<^verbatim>\<open>attemptPurchase\<close>: the snapshot is taken and
  the items of the checkout are read from it, \<^verbatim>\<open>items\<close> being the rows found; the
  per-item loop has all of them before it, and \<^verbatim>\<open>successfulPurchases\<close> is empty.
  \<open>now\<close> is the instant of the transaction, which \<^verbatim>\<open>NOW()\<close> returns in it.
\<close>

definition txBegin :: "cstore \<Rightarrow> string \<Rightarrow> string list \<Rightarrow> int \<Rightarrow> purchase" where
  "txBegin c userID itemIDs now =
     (let items = List.map_filter (cs_items c) itemIDs
      in \<lparr>pu_userID = userID, pu_now = now, pu_items = items, pu_rest = items,
          pu_successful = [], pu_snapshot = cs_items c, pu_writes = Map.empty,
          pu_failed = False\<rparr>)"

text \<open>The row that the conditional update leaves.\<close>

definition markedRow :: "Item \<Rightarrow> string \<Rightarrow> int \<Rightarrow> Item" where
  "markedRow it userID now = it\<lparr>Sold := True, SoldToUserID := Some userID, SoldAt := Some now\<rparr>"

text \<open>
  \<^verbatim>\<open>MarkItemAsSold\<close> in the transaction of attempt \<open>p\<close>. The statement fails when the
  driver fails (\<open>down\<close>) or the transaction is aborted. Otherwise its
  \<^verbatim>\<open>WHERE id = $1 AND sold = FALSE\<close> is evaluated on what the transaction reads: no such
  row, no row affected. A target row that another transaction in progress has locked makes
  the statement wait (\<open>None\<close>: the call has not returned); one that was changed and
  committed since the snapshot makes it fail and aborts the transaction; else the row is
  written and locked, and one row is affected.
\<close>

definition txMarkItemAsSold ::
  "bool \<Rightarrow> nat \<Rightarrow> cstore \<Rightarrow> purchase \<Rightarrow> string
   \<Rightarrow> ((error + bool) \<times> cstore \<times> purchase) option" where
  "txMarkItemAsSold down p c pu itemID =
     (if down \<or> pu_failed pu then Some (Inl ErrSQL, c, pu)
      else case (pu_snapshot pu ++ pu_writes pu) itemID of
             None \<Rightarrow> Some (Inr False, c, pu)
           | Some i \<Rightarrow>
               if Sold i then Some (Inr False, c, pu)
               else (case cs_locks c itemID of
                       Some q \<Rightarrow> None
                     | None \<Rightarrow>
                         if cs_items c itemID \<noteq> pu_snapshot pu itemID
                         then Some (Inl ErrSQL, c, pu\<lparr>pu_failed := True\<rparr>)
                         else Some (Inr True,
                                    c\<lparr>cs_locks := (cs_locks c)(itemID \<mapsto> p)\<rparr>,
                                    pu\<lparr>pu_writes := (pu_writes pu)
                                         (itemID \<mapsto> markedRow i (pu_userID pu) (pu_now pu))\<rparr>)))"

text \<open>The end of the transaction of attempt \<open>p\<close>: its locks are released.\<close>

definition txEnd :: "nat \<Rightarrow> cstore \<Rightarrow> cstore" where
  "txEnd p c =
     c\<lparr>cs_locks := (\<lambda>x. if cs_locks c x = Some p then None else cs_locks c x),
       cs_flights := (cs_flights c)(p := None)\<rparr>"

text \<open>
  The calls of the attempts in flight, each naming its attempt:
  \<^item> \<open>Begin p userID itemIDs now\<close>: attempt \<open>p\<close> begins its transaction at the instant
    \<open>now\<close>, for a checkout of user \<open>userID\<close>, and loads the items; \<open>itemIDs\<close> are the
    items of the checkout whose read does not fail;
  \<^item> \<open>Filtered p\<close>: the filter lookup reports the next item of the loop, and the loop
    goes on to the following one (lines 193 to 200);
  \<^item> \<open>Update p down\<close>: the conditional update of the next item of the loop (lines 202 to
    214): after an error the loop goes on, and an item whose update affected a row is
    appended to \<^verbatim>\<open>successfulPurchases\<close>;
  \<^item> \<open>Commit p\<close>: the loop is over, and the attempt computes its result, writes the sale
    and the result row and commits (lines 217 to 253); the result is returned unless no
    item was bought (\<^verbatim>\<open>ErrAllItemsSold\<close>); the commit of an aborted transaction rolls
    back and returns an error;
  \<^item> \<open>Abandon p\<close>: the attempt ends without a commit: it has returned an error (no
    valid item, the validation of the purchase, the sale update, the result row, the
    commit, a failed serializable validation), and its transaction is rolled back, at the
    latest when its connection is closed.

  An event that its attempt cannot take (an attempt that is not in flight, an update that
  waits for a row lock, a commit before the loop is over or with no item loaded) leaves
  the store as it is. The answers of the filter are not decided by the durable store:
  every choice between \<open>Filtered\<close> and \<open>Update\<close> is a sequence of events, and so is
  every moment at which an attempt fails. \<open>cstep\<close> yields the purchase result that the
  event returns to a caller, if any, and the new store.
\<close>

datatype event =
    Begin nat string "string list" int
  | Filtered nat
  | Update nat bool
  | Commit nat
  | Abandon nat

fun cstep :: "PurchaseService \<Rightarrow> event \<Rightarrow> cstore \<Rightarrow> PurchaseResult option \<times> cstore" where
  "cstep svc (Begin p userID itemIDs now) c =
     (case cs_flights c p of
        Some pu \<Rightarrow> (None, c)
      | None \<Rightarrow> (None, c\<lparr>cs_flights := (cs_flights c)(p \<mapsto> txBegin c userID itemIDs now)\<rparr>))"
| "cstep svc (Filtered p) c =
     (case cs_flights c p of
        None \<Rightarrow> (None, c)
      | Some pu \<Rightarrow>
          (case pu_rest pu of
             [] \<Rightarrow> (None, c)
           | item # rest \<Rightarrow> (None, c\<lparr>cs_flights := (cs_flights c)(p \<mapsto> pu\<lparr>pu_rest := rest\<rparr>)\<rparr>)))"
| "cstep svc (Update p down) c =
     (case cs_flights c p of
        None \<Rightarrow> (None, c)
      | Some pu \<Rightarrow>
          (case pu_rest pu of
             [] \<Rightarrow> (None, c)
           | item # rest \<Rightarrow>
               (case txMarkItemAsSold down p c pu (item_ID item) of
                  None \<Rightarrow> (None, c)
                | Some (Inl e, c', pu') \<Rightarrow>
                    (None, c'\<lparr>cs_flights := (cs_flights c')(p \<mapsto> pu'\<lparr>pu_rest := rest\<rparr>)\<rparr>)
                | Some (Inr success, c', pu') \<Rightarrow>
                    (None,
                     c'\<lparr>cs_flights := (cs_flights c')
                          (p \<mapsto> pu'\<lparr>pu_rest := rest,
                                     pu_successful :=
                                       (if success then pu_successful pu @ [item_ID item]
                                        else pu_successful pu)\<rparr>)\<rparr>))))"
| "cstep svc (Commit p) c =
     (case cs_flights c p of
        None \<Rightarrow> (None, c)
      | Some pu \<Rightarrow>
          if pu_rest pu \<noteq> [] \<or> length (pu_items pu) = 0 then (None, c)
          else if pu_failed pu then (None, txEnd p c)
          else (if length (pu_successful pu) = 0 then None
                else Some (CalculatePurchaseResult svc (pu_items pu) (pu_successful pu)),
                txEnd p (c\<lparr>cs_items := cs_items c ++ pu_writes pu\<rparr>)))"
| "cstep svc (Abandon p) c = (None, txEnd p c)"

text \<open>A sequence of events, from a store: what each event returns, and the store after it.\<close>

fun cexec ::
  "PurchaseService \<Rightarrow> event list \<Rightarrow> cstore \<Rightarrow> (PurchaseResult option \<times> cstore) list" where
  "cexec svc [] c = []"
| "cexec svc (e # es) c =
     (case cstep svc e c of (rep, c') \<Rightarrow> (rep, c') # cexec svc es c')"

text \<open>The store after a sequence of events.\<close>

definition crun :: "PurchaseService \<Rightarrow> event list \<Rightarrow> cstore \<Rightarrow> cstore" where
  "crun svc es c = fold (\<lambda>e c. snd (cstep svc e c)) es c"

text \<open>
  The events of the per-item loop of attempt \<open>p\<close> when it runs as \<^verbatim>\<open>markItems\<close>
  describes it, with the failures of \<open>env\<close> and the cache \<open>r\<close>.
\<close>

fun eventsOf :: "env \<Rightarrow> nat \<Rightarrow> nat \<Rightarrow> nat \<Rightarrow> Item list \<Rightarrow> redis \<Rightarrow> event list" where
  "eventsOf env a p i [] r = []"
| "eventsOf env a p i (item # rest) r =
     (if ItemExistsInBloomFilter (env_fails env AtBloomContains a i) (env_sha env) r
           (item_ID item) = Inr True
      then Filtered p # eventsOf env a p (Suc i) rest r
      else Update p (env_fails env AtMarkItemAsSold a i)
           # eventsOf env a p (Suc i) rest
               (if env_fails env AtMarkItemAsSold a i then r
                else snd (AddItemToBloomFilter (env_fails env AtBloomAdd a i) (env_sha env) r
                            (item_ID item))))"

section \<open>A concrete sale\<close>

text \<open>
  The inputs of the worked examples: a sale \<open>S1\<close> open during \<open>(0, 100)\<close>, two unsold
  items, empty stores, a request at instant 50 that meets no failure, and a stand-in for
  the SHA-256 prefix.
\<close>

definition stubDigest :: digest where
  "stubDigest element = 1"

definition quiet :: "call \<Rightarrow> nat \<Rightarrow> nat \<Rightarrow> bool" where
  "quiet c a i = False"

definition env0 :: env where
  "env0 = \<lparr>env_now = 50, env_fails = quiet, env_sha = stubDigest, env_randomHex = ''00'',
            env_render = Map.empty\<rparr>"

definition sale1 :: Sale where
  "sale1 = \<lparr>sale_ID = ''S1'', StartedAt = 0, EndedAt = 100, TotalItems = 3, ItemsSold = 0,
             sale_CreatedAt = 0\<rparr>"

definition unsold :: "string \<Rightarrow> Item" where
  "unsold i = \<lparr>item_ID = i, item_SaleID = ''S1'', Name = i, ImageURL = [], Sold = False,
               SoldToUserID = None, SoldAt = None, item_CreatedAt = 0\<rparr>"

definition db0 :: db where
  "db0 = \<lparr>tbl_sales = [sale1],
          tbl_items = [''i1'' \<mapsto> unsold ''i1'', ''i2'' \<mapsto> unsold ''i2''],
          tbl_checkout_attempts = [], tbl_checkout_items = [],
          tbl_purchase_results = Map.empty, next_id = 0, open_txs = 0\<rparr>"

definition redis0 :: redis where
  "redis0 = \<lparr>ints = Map.empty, strs = Map.empty, sets = (\<lambda>k. {}), bitmaps = (\<lambda>k. {})\<rparr>"

text \<open>A filter whose set bits happen to cover the seven positions of item \<open>i1\<close>.\<close>

definition redisFP :: redis where
  "redisFP = redis0\<lparr>bitmaps := (\<lambda>k. {})(''bloom:sold_items'' :=
                {679069, 679070, 679071, 679072, 679073, 679074, 679075})\<rparr>"

text \<open>A request during which the three admission reads of the cache fail.\<close>

definition cacheReadsDown :: "call \<Rightarrow> nat \<Rightarrow> nat \<Rightarrow> bool" where
  "cacheReadsDown c a i =
     (c = AtBloomContains \<or> c = AtGetUserItemCount \<or> c = AtHasUserCheckedOutItem)"

text \<open>User \<open>u1\<close> checks out item \<open>i1\<close>, and then purchases.\<close>

definition cmd1 :: CheckoutCommand where
  "cmd1 = \<lparr>cmd_UserID = ''u1'', cmd_ItemID = ''i1''\<rparr>"

definition afterCheckout :: world where
  "afterCheckout = snd (Handle env0 10 (db0, redis0) cmd1)"

definition afterPurchase :: world where
  "afterPurchase = snd (ExecutePurchase env0 NewPurchaseUseCase afterCheckout ''CHK-S1-00'')"

text \<open>A purchase whose first commit fails; the second attempt meets no failure.\<close>

definition commitFailsOnce :: "call \<Rightarrow> nat \<Rightarrow> nat \<Rightarrow> bool" where
  "commitFailsOnce c a i = (c = AtCommitTx \<and> a = 0)"

definition afterFailedCommit :: world where
  "afterFailedCommit =
     snd (ExecutePurchase (env0\<lparr>env_fails := commitFailsOnce\<rparr>) NewPurchaseUseCase
            afterCheckout ''CHK-S1-00'')"

text \<open>
  A store in which user \<open>u1\<close> already holds ten sold items of the sale and has checked
  out an eleventh, \<open>b1\<close>; the cache (\<open>redis0\<close>) holds no counter.
\<close>

definition soldTo :: "string \<Rightarrow> string \<Rightarrow> Item" where
  "soldTo userID i = (unsold i)\<lparr>Sold := True, SoldToUserID := Some userID, SoldAt := Some 20\<rparr>"

text \<open>The store \<open>db0\<close> after item \<open>i2\<close> was sold to a user \<open>u2\<close>.\<close>

definition dbSold :: db where
  "dbSold = db0\<lparr>tbl_items := (tbl_items db0)(''i2'' \<mapsto> soldTo ''u2'' ''i2'')\<rparr>"

definition tenItems :: "string list" where
  "tenItems = [''a0'', ''a1'', ''a2'', ''a3'', ''a4'', ''a5'', ''a6'', ''a7'', ''a8'', ''a9'']"

definition dbTenSold :: db where
  "dbTenSold =
     \<lparr>tbl_sales = [sale1\<lparr>TotalItems := 11, ItemsSold := 10\<rparr>],
      tbl_items = (map_of (map (\<lambda>i. (i, soldTo ''u1'' i)) tenItems))(''b1'' \<mapsto> unsold ''b1''),
      tbl_checkout_attempts =
        [\<lparr>ca_id = 0, ca_checkout_code = ''CHK-S1-01'', ca_sale_id = ''S1'', ca_user_id = ''u1'',
          ca_created_at = 30\<rparr>],
      tbl_checkout_items =
        [\<lparr>ci_id = 1, ci_attempt_id = 0, ci_item_id = ''b1'', ci_added_at = 30\<rparr>],
      tbl_purchase_results = Map.empty, next_id = 2, open_txs = 0\<rparr>"

section \<open>Notions used in the results\<close>

text \<open>Two stores agree on the tables a purchase transaction writes.\<close>

definition sameSold :: "db \<Rightarrow> db \<Rightarrow> bool" where
  "sameSold d d' =
     (tbl_items d' = tbl_items d \<and> tbl_sales d' = tbl_sales d
      \<and> tbl_purchase_results d' = tbl_purchase_results d)"

text \<open>
  The errors an attempt can return up to and including the idempotency probe, for a
  checkout code that has a stored result.
\<close>

definition probeErrors :: "error set" where
  "probeErrors =
     {ErrSaleLimitExceeded, ErrUserLimitExceeded,
      ErrWrap ''failed to begin transaction'' ErrSQL, ErrSQL, ErrCheckoutAlreadyProcessed}"

text \<open>
  What is observed of item \<open>x\<close>: whether a returned result lists it with
  \<^verbatim>\<open>sold = true\<close>, whether its committed row is sold, and to whom.
\<close>

definition reportsSold :: "string \<Rightarrow> PurchaseResult option \<Rightarrow> bool" where
  "reportsSold x rep =
     (case rep of
        None \<Rightarrow> False
      | Some result \<Rightarrow> list_ex (\<lambda>p. pir_ID p = x \<and> pir_Sold p) (Items result))"

definition soldIn :: "string \<Rightarrow> items \<Rightarrow> bool" where
  "soldIn x tbl = (case tbl x of None \<Rightarrow> False | Some it \<Rightarrow> Sold it)"

definition buyerOf :: "string \<Rightarrow> items \<Rightarrow> string option option" where
  "buyerOf x tbl =
     (case tbl x of
        None \<Rightarrow> None
      | Some it \<Rightarrow> if Sold it then Some (SoldToUserID it) else None)"

text \<open>
  The row of \<open>x\<close> is that of an unsold item before and the one the conditional update
  makes of it after.
\<close>

definition soldBy :: "string \<Rightarrow> items \<Rightarrow> items \<Rightarrow> bool" where
  "soldBy x tbl tbl' =
     (case (tbl x, tbl' x) of
        (Some it, Some it') \<Rightarrow>
          \<not> Sold it
          \<and> (case (SoldToUserID it', SoldAt it') of
                (Some userID, Some now) \<Rightarrow> it' = markedRow it userID now
              | other \<Rightarrow> False)
      | other \<Rightarrow> False)"

text \<open>
  An event either leaves the committed row of \<open>x\<close> alone and returns no result that
  lists \<open>x\<close> as sold, or sells \<open>x\<close> by the conditional update and returns a result
  that lists it as sold.
\<close>

definition stepOk :: "string \<Rightarrow> items \<Rightarrow> PurchaseResult option \<times> items \<Rightarrow> bool" where
  "stepOk x tbl s =
     (if reportsSold x (fst s) then soldBy x tbl (snd s) else snd s x = tbl x)"

text \<open>
  \<open>chainOk x tbl tr\<close>: along the sequence \<open>tr\<close> of returned results and committed
  tables that starts from the table \<open>tbl\<close>, every step satisfies \<open>stepOk\<close> for
  item \<open>x\<close>.
\<close>

fun chainOk :: "string \<Rightarrow> items \<Rightarrow> (PurchaseResult option \<times> items) list \<Rightarrow> bool" where
  "chainOk x tbl [] = True"
| "chainOk x tbl (s # rest) = (stepOk x tbl s \<and> chainOk x (snd s) rest)"

definition reportsOf ::
  "string \<Rightarrow> (PurchaseResult option \<times> items) list \<Rightarrow> (PurchaseResult option \<times> items) list" where
  "reportsOf x tr = filter (\<lambda>s. reportsSold x (fst s)) tr"

definition buyersOf :: "string \<Rightarrow> items list \<Rightarrow> string option list" where
  "buyersOf x tbls = remdups (List.map_filter (buyerOf x) tbls)"

text \<open>The returned results and the committed tables of an executed sequence of events.\<close>

definition tables ::
  "(PurchaseResult option \<times> cstore) list \<Rightarrow> (PurchaseResult option \<times> items) list" where
  "tables tr = map (\<lambda>s. (fst s, cs_items (snd s))) tr"

text \<open>
  What holds of every attempt \<open>p\<close> in flight, in every store reached: each row it has
  written is locked by it, and is what the conditional update makes of the committed
  row, which is unsold; \<^verbatim>\<open>successfulPurchases\<close> are the rows it has written, all among
  the items it loaded.
\<close>

definition good :: "items \<Rightarrow> (string \<rightharpoonup> nat) \<Rightarrow> nat \<Rightarrow> purchase \<Rightarrow> bool" where
  "good tbl locks p pu =
     ((\<forall>x it'. pu_writes pu x = Some it' \<longrightarrow>
          locks x = Some p
          \<and> (\<exists>it. tbl x = Some it \<and> \<not> Sold it
                 \<and> it' = markedRow it (pu_userID pu) (pu_now pu)))
      \<and> set (pu_successful pu) = dom (pu_writes pu)
      \<and> set (pu_successful pu) \<subseteq> item_ID ` set (pu_items pu)
      \<and> set (pu_rest pu) \<subseteq> set (pu_items pu))"

definition Inv :: "cstore \<Rightarrow> bool" where
  "Inv c = (\<forall>p pu. cs_flights c p = Some pu \<longrightarrow> good (cs_items c) (cs_locks c) p pu)"

text \<open>
  Attempt \<open>p\<close> is in flight alone: its transaction is not aborted, nothing was committed
  since its snapshot, and the locked rows are the ones it has written.
\<close>

definition alone :: "cstore \<Rightarrow> nat \<Rightarrow> purchase \<Rightarrow> bool" where
  "alone c p pu =
     (cs_flights c p = Some pu \<and> \<not> pu_failed pu \<and> cs_items c = pu_snapshot pu
      \<and> (\<forall>x. cs_locks c x = (if x \<in> dom (pu_writes pu) then Some p else None))
      \<and> (\<forall>x it. pu_writes pu x = Some it \<longrightarrow> Sold it))"

text \<open>
  Scenario E3, two rivals racing for item \<open>i1\<close>: both attempts begin; the update of the
  first gets the row, the update of the second waits; the first commits; the second's
  update now fails and its commit rolls back; the second user's retry finds the row sold.
\<close>

definition store0 :: cstore where
  "store0 = \<lparr>cs_items = tbl_items db0, cs_locks = Map.empty, cs_flights = Map.empty\<rparr>"

definition raceE3 :: "event list" where
  "raceE3 =
     [Begin 1 ''u1'' [''i1''] 50, Begin 2 ''u2'' [''i1''] 51,
      Update 1 False, Update 2 False, Commit 1, Update 2 False, Commit 2,
      Begin 3 ''u2'' [''i1''] 60, Update 3 False, Commit 3]"

text \<open>
  The errors with which the handler rejects a checkout before it appends the item, up to
  and including the test of the item against the loaded checkout.
\<close>

definition guardErrors :: "error set" where
  "guardErrors =
     {ErrSaleNotFound, ErrSaleNotActive, ErrItemAlreadySold, ErrUserLimitExceeded,
      ErrUserAlreadyCheckedOutItem, ErrSQL, ErrItemNotFound, ErrItemNotInSale}"

text \<open>
  Checkout requests served one after the other, each with its own environment and limit:
  the answer to each, and the stores after it.
\<close>

type_synonym checkoutRequest = "env \<times> int \<times> CheckoutCommand"

fun checkouts ::
  "checkoutRequest list \<Rightarrow> world \<Rightarrow> ((error + CheckoutResponse) \<times> world) list" where
  "checkouts [] w = []"
| "checkouts ((env, limit, cmd) # rest) w =
     (case Handle env limit w cmd of (res, w') \<Rightarrow> (res, w') # checkouts rest w')"

text \<open>
  A later request of user \<open>userID\<close> in sale \<open>s\<close>: it is the user's, its reads of the
  user's code and of the checkout rows do not fail, and the sale it finds active, if any,
  is \<open>s\<close> (the handler leaves the table of sales as it is, so the sale found is read
  from the table \<open>d\<close> at the start).
\<close>

definition follows :: "Sale \<Rightarrow> string \<Rightarrow> db \<Rightarrow> checkoutRequest \<Rightarrow> bool" where
  "follows s userID d q =
     (case q of
        (env, limit, cmd) \<Rightarrow>
          cmd_UserID cmd = userID
          \<and> \<not> env_fails env AtGetUserCheckoutCode 0 0
          \<and> \<not> env_fails env AtGetCheckoutByCode 0 0
          \<and> (case GetActiveSale (env_fails env AtGetActiveSale 0 0) d (env_now env) of
                Inl e \<Rightarrow> True
              | Inr s' \<Rightarrow> sale_ID s' = sale_ID s))"

text \<open>
  One request \<open>cmd\<close> served from the store \<open>d\<close>, with answer and stores \<open>a\<close>,
  reuses the checkout of \<open>code\<close>: the checkout is in the store; a successful answer
  carries \<open>code\<close>, its item was not in the checkout, and the checkout afterwards holds
  the former items and the new one, once; a failure leaves the store as it is, and the
  request for an item of the checkout fails with one of \<open>guardErrors\<close>.
\<close>

definition reuseStep ::
  "string \<Rightarrow> db \<Rightarrow> CheckoutCommand \<Rightarrow> (error + CheckoutResponse) \<times> world \<Rightarrow> bool" where
  "reuseStep code d cmd a =
     (case GetCheckoutByCode False d code of
        Inl e \<Rightarrow> False
      | Inr checkout \<Rightarrow>
          (case fst a of
             Inl e \<Rightarrow>
               fst (snd a) = d
               \<and> (cmd_ItemID cmd \<in> set (ItemIDs checkout) \<longrightarrow> e \<in> guardErrors)
           | Inr resp \<Rightarrow>
               resp_Code resp = code
               \<and> cmd_ItemID cmd \<notin> set (ItemIDs checkout)
               \<and> resp_ItemsCount resp = int (length (ItemIDs checkout)) + 1
               \<and> (case GetCheckoutByCode False (fst (snd a)) code of
                     Inl e \<Rightarrow> False
                   | Inr checkout' \<Rightarrow>
                       set (ItemIDs checkout')
                         = insert (cmd_ItemID cmd) (set (ItemIDs checkout))
                       \<and> length (ItemIDs checkout') = Suc (length (ItemIDs checkout)))))"

text \<open>Every request of a served sequence that starts from the store \<open>d\<close> does so.\<close>

fun reuses ::
  "string \<Rightarrow> db \<Rightarrow> (checkoutRequest \<times> (error + CheckoutResponse) \<times> world) list \<Rightarrow> bool" where
  "reuses code d [] = True"
| "reuses code d ((q, a) # rest) =
     (reuseStep code d (snd (snd q)) a \<and> reuses code (fst (snd a)) rest)"

text \<open>
  More requests of user \<open>u1\<close>: a checkout of \<open>i2\<close>; a first checkout during which the
  cache fails to store the user's code; a checkout during which the read of the user's
  code fails; a checkout during which the read of the checkout rows and the membership
  test of the checked-out items fail; the stores after a rival \<open>u2\<close> has checked out
  and purchased \<open>i1\<close>, which \<open>u1\<close> has in the checkout; and two requests that follow
  the checkout of \<open>i1\<close>, for \<open>i2\<close> and for \<open>i1\<close> again, each drawing another
  random string.
\<close>

definition cmd2 :: CheckoutCommand where
  "cmd2 = \<lparr>cmd_UserID = ''u1'', cmd_ItemID = ''i2''\<rparr>"

definition codeWriteDown :: "call \<Rightarrow> nat \<Rightarrow> nat \<Rightarrow> bool" where
  "codeWriteDown c a i = (c = AtSetUserCheckoutCode)"

definition checkoutReadsDown :: "call \<Rightarrow> nat \<Rightarrow> nat \<Rightarrow> bool" where
  "checkoutReadsDown c a i = (c = AtGetCheckoutByCode \<or> c = AtHasUserCheckedOutItem)"

definition codeReadDown :: "call \<Rightarrow> nat \<Rightarrow> nat \<Rightarrow> bool" where
  "codeReadDown c a i = (c = AtGetUserCheckoutCode)"

definition afterUnrecordedCheckout :: world where
  "afterUnrecordedCheckout =
     snd (Handle (env0\<lparr>env_fails := codeWriteDown\<rparr>) 10 (db0, redis0) cmd1)"

definition afterRivalPurchase :: world where
  "afterRivalPurchase =
     snd (ExecutePurchase env0 NewPurchaseUseCase
            (snd (Handle (env0\<lparr>env_randomHex := ''01''\<rparr>) 10 afterCheckout
                    \<lparr>cmd_UserID = ''u2'', cmd_ItemID = ''i1''\<rparr>))
            ''CHK-S1-01'')"

definition laterRequests :: "checkoutRequest list" where
  "laterRequests =
     [(env0\<lparr>env_randomHex := ''01''\<rparr>, 10, cmd2), (env0\<lparr>env_randomHex := ''02''\<rparr>, 10, cmd1)]"

section \<open>Results about the coordination store\<close>

lemma sale_key_neq_user_key: "saleItemsSoldKey s \<noteq> userCountKey u s'"
  by (simp add: saleItemsSoldKey_def userCountKey_def)

lemma ulp_small: "a < 2 ^ 53 \<Longrightarrow> ulp a = 1"
  by (simp add: ulp.simps)

lemma roundNat_small: "a < 2 ^ 53 \<Longrightarrow> roundNat a = a"
  by (simp add: roundNat_def ulp_small)

lemma tonumber_small: "\<bar>v\<bar> < 2 ^ 53 \<Longrightarrow> tonumber v = v"
  by (simp add: tonumber_def roundNat_small)

lemma luaINCRBY_small:
  assumes "\<bar>x\<bar> < 2 ^ 52" and "\<bar>luaGET r key\<bar> < 2 ^ 52"
  shows "luaINCRBY render r key x = Some (r\<lparr>ints := (ints r)(key \<mapsto> luaGET r key + x)\<rparr>)"
  using assms by (auto simp: luaINCRBY_def luaNumberArg_def INCRBY_def int64_def)

text \<open>
  Claim C6, as stated, fails for large numbers, whatever the server's rendering. With
  the user counter at \<open>2 ^ 63 - 513\<close>, \<open>n = 600\<close> and the user limit \<open>2 ^ 63 - 1\<close>,
  the counter and the limit round to the doubles \<open>2 ^ 63 - 1024\<close> and \<open>2 ^ 63\<close>, the
  check of the remaining capacity passes, the sale counter is incremented, and the
  \<^verbatim>\<open>INCRBY\<close> of the user counter overflows: the script ends with an error and exactly
  one counter incremented. With the sale counter and the sale limit both at \<open>2 ^ 53\<close>
  and \<open>n = 1\<close>, the sum rounds back to \<open>2 ^ 53\<close>, and the script replies 1 and
  increments both counters although the sale counter plus \<open>n\<close> exceeds the limit.
\<close>

theorem purchase_script_increments_one_counter:
  "\<forall>render.
     purchaseLuaScript render (redis0\<lparr>ints := [userCountKey ''u1'' ''S1'' \<mapsto> 2 ^ 63 - 513]\<rparr>)
         (saleItemsSoldKey ''S1'') (userCountKey ''u1'' ''S1'') 600 10000 (2 ^ 63 - 1)
       = (Inl ErrRedis,
          redis0\<lparr>ints := [userCountKey ''u1'' ''S1'' \<mapsto> 2 ^ 63 - 513,
                           saleItemsSoldKey ''S1'' \<mapsto> 600]\<rparr>)
     \<and> purchaseLuaScript render (redis0\<lparr>ints := [saleItemsSoldKey ''S1'' \<mapsto> 2 ^ 53]\<rparr>)
         (saleItemsSoldKey ''S1'') (userCountKey ''u1'' ''S1'') 1 (2 ^ 53) 10
       = (Inr 1,
          redis0\<lparr>ints := [saleItemsSoldKey ''S1'' \<mapsto> 2 ^ 53 + 1,
                           userCountKey ''u1'' ''S1'' \<mapsto> 1]\<rparr>)"
  by (simp add: purchaseLuaScript_def Let_def luaGET_def redis0_def saleItemsSoldKey_def
        userCountKey_def luaINCRBY_def luaNumberArg_def INCRBY_def int64_def
        tonumber_def roundNat_def ulp.simps)

text \<open>
  Claim C6, amended. Let the item count \<open>n\<close>, the two limits and the two counters (an
  absent counter counting as 0) be of magnitude below \<open>2 ^ 52\<close>, where the script's
  arithmetic is exact and no counter overflows. Then one evaluation of the purchase
  script, on the keys that \<^verbatim>\<open>AtomicPurchaseCheck\<close> passes, replies 1 and adds \<open>n\<close> to
  both the sale counter and the user counter when both limits hold, and otherwise replies
  0 and leaves the keyspace as it was; it never increments one counter alone.
\<close>

theorem purchase_script_both_or_neither:
  assumes "\<bar>n\<bar> < 2 ^ 52" and "\<bar>max_sale\<bar> < 2 ^ 52" and "\<bar>max_user\<bar> < 2 ^ 52"
    and "\<bar>luaGET r (saleItemsSoldKey s)\<bar> < 2 ^ 52"
    and "\<bar>luaGET r (userCountKey u s)\<bar> < 2 ^ 52"
  shows "purchaseLuaScript render r (saleItemsSoldKey s) (userCountKey u s) n max_sale max_user =
     (if luaGET r (saleItemsSoldKey s) + n \<le> max_sale \<and> luaGET r (userCountKey u s) + n \<le> max_user
      then (Inr 1, r\<lparr>ints := (ints r)
                  (saleItemsSoldKey s \<mapsto> luaGET r (saleItemsSoldKey s) + n,
                   userCountKey u s \<mapsto> luaGET r (userCountKey u s) + n)\<rparr>)
      else (Inr 0, r))"
proof -
  let ?sk = "saleItemsSoldKey s" and ?uk = "userCountKey u s"
  have neq: "?uk \<noteq> ?sk"
    using sale_key_neq_user_key [of s u s] by simp
  have exact: "tonumber n = n" "tonumber max_sale = max_sale" "tonumber max_user = max_user"
    "tonumber (luaGET r ?sk) = luaGET r ?sk" "tonumber (luaGET r ?uk) = luaGET r ?uk"
    "tonumber (luaGET r ?sk + n) = luaGET r ?sk + n"
    "tonumber (max_user - luaGET r ?uk) = max_user - luaGET r ?uk"
    using assms by (simp_all add: tonumber_small)
  have first: "luaINCRBY render r ?sk n = Some (r\<lparr>ints := (ints r)(?sk \<mapsto> luaGET r ?sk + n)\<rparr>)"
    using assms by (rule_tac luaINCRBY_small) simp_all
  have get: "luaGET (r\<lparr>ints := (ints r)(?sk \<mapsto> luaGET r ?sk + n)\<rparr>) ?uk = luaGET r ?uk"
    using neq by (simp add: luaGET_def)
  have second: "luaINCRBY render (r\<lparr>ints := (ints r)(?sk \<mapsto> luaGET r ?sk + n)\<rparr>) ?uk n
                  = Some (r\<lparr>ints := (ints r)(?sk \<mapsto> luaGET r ?sk + n,
                                               ?uk \<mapsto> luaGET r ?uk + n)\<rparr>)"
    using assms(1,5) get by (simp add: luaINCRBY_small)
  show ?thesis
    by (auto simp: purchaseLuaScript_def Let_def exact first second)
qed

theorem purchase_script_both_or_neither_witness:
  "purchaseLuaScript Map.empty (redis0\<lparr>ints := [userCountKey ''u1'' ''S1'' \<mapsto> 8]\<rparr>)
      (saleItemsSoldKey ''S1'') (userCountKey ''u1'' ''S1'') 2 10000 10
     = (Inr 1, redis0\<lparr>ints := [userCountKey ''u1'' ''S1'' \<mapsto> 10,
                                 saleItemsSoldKey ''S1'' \<mapsto> 2]\<rparr>)
   \<and> purchaseLuaScript Map.empty (redis0\<lparr>ints := [userCountKey ''u1'' ''S1'' \<mapsto> 8]\<rparr>)
      (saleItemsSoldKey ''S1'') (userCountKey ''u1'' ''S1'') 3 10000 10
     = (Inr 0, redis0\<lparr>ints := [userCountKey ''u1'' ''S1'' \<mapsto> 8]\<rparr>)"
  using purchase_script_both_or_neither
          [of 2 10000 10 "redis0\<lparr>ints := [userCountKey ''u1'' ''S1'' \<mapsto> 8]\<rparr>" "''S1''" "''u1''"
              Map.empty]
        purchase_script_both_or_neither
          [of 3 10000 10 "redis0\<lparr>ints := [userCountKey ''u1'' ''S1'' \<mapsto> 8]\<rparr>" "''S1''" "''u1''"
              Map.empty]
  by (simp add: luaGET_def redis0_def saleItemsSoldKey_def userCountKey_def)
     (auto simp: fun_upd_def)

lemma Add_bitmaps_mono:
  "bitmaps r key \<subseteq> bitmaps (snd (Add down sha bf r x)) key"
  by (auto simp: Add_def Let_def)

lemma Add_nil_sets_bits:
  assumes "fst (Add down sha bf r x) = None"
  shows "set (bitPositions sha bf x) \<subseteq> bitmaps (snd (Add down sha bf r x)) (bf_key bf)"
    and "list_all validOffset (bitPositions sha bf x)"
    and "\<not> (bf_k bf \<noteq> 0 \<and> bf_m bf = 0)"
  using assms by (auto simp: Add_def Let_def list_all_iff split: if_splits)

lemma run_adds_Cons_fst:
  "fst (run_adds sha bf r ((down, x) # ops)) =
     fst (run_adds sha bf (snd (Add down sha bf r x)) ops)"
  by (simp split: prod.splits)

lemma run_adds_Cons_snd:
  "snd (run_adds sha bf r ((down, x) # ops)) =
     (if fst (Add down sha bf r x) = None
      then x # snd (run_adds sha bf (snd (Add down sha bf r x)) ops)
      else snd (run_adds sha bf (snd (Add down sha bf r x)) ops))"
  by (simp split: prod.splits)

lemma run_adds_bitmaps_mono:
  "bitmaps r key \<subseteq> bitmaps (fst (run_adds sha bf r ops)) key"
proof (induction ops arbitrary: r)
  case Nil
  then show ?case by simp
next
  case (Cons op ops)
  obtain down x where op: "op = (down, x)" by (cases op)
  have "bitmaps r key \<subseteq> bitmaps (snd (Add down sha bf r x)) key"
    by (rule Add_bitmaps_mono)
  also have "\<dots> \<subseteq> bitmaps (fst (run_adds sha bf (snd (Add down sha bf r x)) ops)) key"
    by (rule Cons.IH)
  finally show ?case
    by (simp only: op run_adds_Cons_fst)
qed

lemma run_adds_added_bits:
  assumes "x \<in> set (snd (run_adds sha bf r ops))"
  shows "set (bitPositions sha bf x) \<subseteq> bitmaps (fst (run_adds sha bf r ops)) (bf_key bf)
         \<and> list_all validOffset (bitPositions sha bf x)
         \<and> \<not> (bf_k bf \<noteq> 0 \<and> bf_m bf = 0)"
  using assms
proof (induction ops arbitrary: r)
  case Nil
  then show ?case by simp
next
  case (Cons op ops)
  obtain down y where op: "op = (down, y)" by (cases op)
  let ?r' = "snd (Add down sha bf r y)"
  show ?case
  proof (cases "x \<in> set (snd (run_adds sha bf ?r' ops))")
    case True
    from Cons.IH [OF True] show ?thesis
      by (simp add: op run_adds_Cons_fst del: run_adds.simps)
  next
    case False
    with Cons.prems have xy: "x = y" and ok: "fst (Add down sha bf r y) = None"
      by (auto simp only: op run_adds_Cons_snd set_simps split: if_splits)
    have "set (bitPositions sha bf y) \<subseteq> bitmaps ?r' (bf_key bf)"
      using Add_nil_sets_bits(1) [OF ok] .
    also have "\<dots> \<subseteq> bitmaps (fst (run_adds sha bf ?r' ops)) (bf_key bf)"
      by (rule run_adds_bitmaps_mono)
    finally have "set (bitPositions sha bf y) \<subseteq> bitmaps (fst (run_adds sha bf ?r' ops)) (bf_key bf)" .
    with Add_nil_sets_bits(2,3) [OF ok] show ?thesis
      by (simp add: op xy run_adds_Cons_fst del: run_adds.simps)
  qed
qed

lemma positions_i1:
  "bitPositions stubDigest soldItemsFilter ''i1'' =
     [679069, 679070, 679071, 679072, 679073, 679074, 679075]"
  by (simp add: bitPositions_def getHashes_def soldItemsFilter_def hash1_def stubDigest_def
        upt_conv_Cons)

text \<open>
  Claim C9. After any sequence of \<^verbatim>\<open>Add\<close> calls on the filter, from any keyspace: if
  \<^verbatim>\<open>Contains(x)\<close> answers false without error, then no \<^verbatim>\<open>Add(x)\<close> of the sequence
  returned \<^verbatim>\<open>nil\<close>; and for each \<open>x\<close> whose \<^verbatim>\<open>Add\<close> returned \<^verbatim>\<open>nil\<close>, a later
  \<^verbatim>\<open>Contains(x)\<close> that reaches the store answers true. Bits are only ever set, and both
  methods use the same positions \<open>(h1 + i * h2) mod m\<close> for \<open>i < k\<close>.
\<close>

theorem filter_no_false_negatives:
  assumes "run_adds sha bf r ops = (r', added)"
  shows "(Contains down sha bf r' x = Inr False \<longrightarrow> x \<notin> set added)
         \<and> (x \<in> set added \<and> \<not> down \<longrightarrow> Contains down sha bf r' x = Inr True)"
proof -
  have *: "x \<in> set added \<Longrightarrow>
      set (bitPositions sha bf x) \<subseteq> bitmaps r' (bf_key bf)
      \<and> list_all validOffset (bitPositions sha bf x) \<and> \<not> (bf_k bf \<noteq> 0 \<and> bf_m bf = 0)"
    using run_adds_added_bits [of x sha bf r ops] assms by simp
  show ?thesis
    using * by (auto simp: Contains_def Let_def list_all_iff split: if_splits)
qed


theorem filter_no_false_negatives_witness:
  "''i1'' \<in> set (snd (run_adds stubDigest soldItemsFilter redis0 [(False, ''i1'')]))
   \<and> Contains False stubDigest soldItemsFilter
         (fst (run_adds stubDigest soldItemsFilter redis0 [(False, ''i1'')])) ''i1'' = Inr True"
proof -
  have added: "''i1'' \<in> set (snd (run_adds stubDigest soldItemsFilter redis0 [(False, ''i1'')]))"
    by (simp add: Add_def Let_def positions_i1 validOffset_def)
       (simp add: soldItemsFilter_def)
  show ?thesis
    using added
      filter_no_false_negatives [of stubDigest soldItemsFilter redis0 "[(False, ''i1'')]"
        "fst (run_adds stubDigest soldItemsFilter redis0 [(False, ''i1'')])"
        "snd (run_adds stubDigest soldItemsFilter redis0 [(False, ''i1'')])" False "''i1''"]
    by simp
qed


section \<open>Evaluating the model on concrete requests\<close>

lemmas cache_defs =
  AddItemToBloomFilter_def ItemExistsInBloomFilter_def Add_def Contains_def validOffset_def
  GetUserItemCount_def GetUserCheckoutCount_def IncrementUserCheckoutCount_def
  GetAvailableCheckoutSlots_def GetUserCheckoutCode_def SetUserCheckoutCode_def
  RemoveUserCheckoutCode_def SetCheckoutCode_def CheckoutCodeExists_def RemoveCheckoutCode_def
  HasUserCheckedOutItem_def AddUserCheckedOutItem_def GetSaleItemCount_def IncrementCounters_def
  DistributedLock_def ReleaseLock_def luaGET_def INCRBY_def int64_def luaINCRBY_def
  luaNumberArg_def tonumber_small
  saleItemsSoldKey_def userCountKey_def userCheckoutCountKey_def userCheckoutKey_def
  checkoutKey_def checkedItemsKey_def lockKeyOf_def

lemmas store_defs =
  GetActiveSale_def GetSaleByID_def UpdateSale_def GetItemByID_def MarkItemAsSold_def
  SavePurchaseResult_def GetPurchaseResult_def BeginTx_def CommitTx_def RollbackTx_def
  attemptHasCode_def saleExists_def GetCheckoutByCode_def CreateCheckout_def
  AddItemToCheckout_def LogCheckoutAttempt_def DeleteCheckout_def

lemmas domain_defs =
  IsActive_def IsSold_def BelongsToSale_def NewCheckout_def AddItem_def ItemCount_def
  NewPurchaseService_def ValidatePurchase_def CalculatePurchaseResult_def

lemmas engine_defs =
  GenerateCheckoutCode_def obtainCheckoutCode_def storeCheckout_def Handle_checkout_def
  Handle_item_def Handle_def NewPurchaseUseCase_def isBusinessLogicError_def
  finishPurchase_def attemptInTx_def attemptPurchase_def cleanupCheckout_def
  releaseDeferred_def ExecutePurchase_def

lemmas fixture_defs = env0_def quiet_def sale1_def unsold_def db0_def redis0_def cmd1_def

lemma bf_simps [simp]: "bf_key soldItemsFilter = ''bloom:sold_items''"
  "bf_k soldItemsFilter = 7" "bf_m soldItemsFilter = 958506"
  by (simp_all add: soldItemsFilter_def)

lemma purchaseLoop_eval:
  "purchaseLoop env uc checkout attempt k prev w =
     (if k = 0 then (prev, w)
      else case attemptPurchase env uc attempt w checkout of
             (Inr result, w') \<Rightarrow> (Inr (Some result), w')
           | (Inl e, w') \<Rightarrow>
               if isBusinessLogicError e then (Inl e, w')
               else purchaseLoop env uc checkout (Suc attempt) (k - 1) (Inl e) w')"
  by (cases k) (auto split: prod.splits sum.splits)

lemmas eval_simps = engine_defs cache_defs store_defs domain_defs fixture_defs Let_def positions_i1 enumerate_eq_zip purchaseLoop_eval


lemmas hash_simps = bitPositions_def getHashes_def hash1_def stubDigest_def upt_conv_Cons

section \<open>Results about the checkout handler\<close>

lemma GetActiveSale_db0: "GetActiveSale False db0 50 = Inr sale1"
  by (simp add: GetActiveSale_def db0_def sale1_def)

lemma Contains_FP: "ItemExistsInBloomFilter False stubDigest redisFP ''i1'' = Inr True"
  by (simp add: ItemExistsInBloomFilter_def Contains_def Let_def positions_i1 validOffset_def)
     (simp add: soldItemsFilter_def redisFP_def redis0_def)

text \<open>
  Claim C5, as stated, fails: with the filter reporting the unsold item \<open>i1\<close> (a false
  positive), the checkout is rejected with \<^verbatim>\<open>ItemAlreadySold\<close>.
\<close>

theorem false_positive_rejects_checkout:
  "Handle env0 10 (db0, redisFP) \<lparr>cmd_UserID = ''u1'', cmd_ItemID = ''i1''\<rparr>
     = (Inl ErrItemAlreadySold, (db0, redisFP))
   \<and> map_option Sold (tbl_items db0 ''i1'') = Some False"
proof -
  have "IsActive sale1 50" by (simp add: IsActive_def sale1_def)
  then show ?thesis
    by (simp add: Handle_def env0_def quiet_def GetActiveSale_db0 Contains_FP)
       (simp add: db0_def unsold_def)
qed

text \<open>
  Claim C5, amended. Whenever the filter lookup returns without error and reports the
  item, the handler fails with \<^verbatim>\<open>ItemAlreadySold\<close> at once and changes nothing,
  whatever the table of items holds: the authoritative \<^verbatim>\<open>items.sold\<close> is read only
  after a lookup that reports absence or fails.
\<close>

theorem filter_positive_rejects_without_store_read:
  assumes "GetActiveSale (env_fails env AtGetActiveSale 0 0) d (env_now env) = Inr activeSale"
    and "IsActive activeSale (env_now env)"
    and "ItemExistsInBloomFilter (env_fails env AtBloomContains 0 0) (env_sha env) r
           (cmd_ItemID cmd) = Inr True"
  shows "Handle env maxItemsLimit (d\<lparr>tbl_items := anyItems\<rparr>, r) cmd
           = (Inl ErrItemAlreadySold, (d\<lparr>tbl_items := anyItems\<rparr>, r))"
proof -
  have "GetActiveSale (env_fails env AtGetActiveSale 0 0) (d\<lparr>tbl_items := anyItems\<rparr>) (env_now env)
          = Inr activeSale"
    using assms(1) by (simp add: GetActiveSale_def split: if_splits)
  with assms(2,3) show ?thesis
    by (simp add: Handle_def)
qed

theorem filter_positive_rejects_without_store_read_witness:
  "Handle env0 10 (db0\<lparr>tbl_items := Map.empty\<rparr>, redisFP)
      \<lparr>cmd_UserID = ''u1'', cmd_ItemID = ''i1''\<rparr>
     = (Inl ErrItemAlreadySold, (db0\<lparr>tbl_items := Map.empty\<rparr>, redisFP))"
proof -
  have "IsActive sale1 50" by (simp add: IsActive_def sale1_def)
  then show ?thesis
    using filter_positive_rejects_without_store_read
            [of env0 db0 sale1 redisFP "\<lparr>cmd_UserID = ''u1'', cmd_ItemID = ''i1''\<rparr>"
                10 Map.empty]
    by (simp add: env0_def quiet_def GetActiveSale_db0 Contains_FP)
qed

text \<open>
  Claim C10. In a checkout for an active sale, let each of the three admission checks
  against the cache (the filter lookup, the read of the available slots, the membership
  test of the checked-out items) either fail or give its passing answer. Then no check
  rejects the request or changes anything, and the answer is decided by the authoritative
  checks of the item's row in the durable store: a read of the row that fails ends the
  request with that error, a missing row gives \<^verbatim>\<open>ItemNotFound\<close>, a row of another
  sale \<^verbatim>\<open>ItemNotInSale\<close>, a sold row \<^verbatim>\<open>ItemAlreadySold\<close> (the item being added to the
  filter), and an unsold row of the sale admits the request to the creation of the
  checkout.
\<close>

theorem admission_checks_fail_open:
  assumes "GetActiveSale (env_fails env AtGetActiveSale 0 0) d (env_now env) = Inr activeSale"
    and "IsActive activeSale (env_now env)"
    and "env_fails env AtBloomContains 0 0
         \<or> ItemExistsInBloomFilter False (env_sha env) r (cmd_ItemID cmd) = Inr False"
    and "env_fails env AtGetUserItemCount 0 0 \<or> env_fails env AtGetUserCheckoutCount 0 0
         \<or> (\<exists>n. GetAvailableCheckoutSlots False False r (sale_ID activeSale) (cmd_UserID cmd)
                   maxItemsLimit = Inr n \<and> n > 0)"
    and "env_fails env AtHasUserCheckedOutItem 0 0
         \<or> HasUserCheckedOutItem False r (sale_ID activeSale) (cmd_UserID cmd) (cmd_ItemID cmd)
              = Inr False"
  shows "Handle env maxItemsLimit (d, r) cmd =
           (if env_fails env AtGetItemByID 0 0 then (Inl ErrSQL, (d, r))
            else case tbl_items d (cmd_ItemID cmd) of
                   None \<Rightarrow> (Inl ErrItemNotFound, (d, r))
                 | Some item \<Rightarrow>
                     if item_SaleID item \<noteq> sale_ID activeSale then (Inl ErrItemNotInSale, (d, r))
                     else if Sold item
                     then (Inl ErrItemAlreadySold,
                           (d, snd (AddItemToBloomFilter (env_fails env AtBloomAdd 0 0)
                                      (env_sha env) r (cmd_ItemID cmd))))
                     else Handle_checkout env activeSale (d, r) cmd)"
proof -
  have bloom: "ItemExistsInBloomFilter (env_fails env AtBloomContains 0 0) (env_sha env) r
                 (cmd_ItemID cmd) \<noteq> Inr True"
    using assms(3)
    by (cases "env_fails env AtBloomContains 0 0")
       (auto simp: ItemExistsInBloomFilter_def Contains_def Let_def)
  have slots: "\<not> (case GetAvailableCheckoutSlots (env_fails env AtGetUserItemCount 0 0)
                          (env_fails env AtGetUserCheckoutCount 0 0) r (sale_ID activeSale)
                          (cmd_UserID cmd) maxItemsLimit of
                     Inl e \<Rightarrow> False
                   | Inr availableSlots \<Rightarrow> availableSlots \<le> 0)"
    using assms(4)
    by (auto simp: GetAvailableCheckoutSlots_def GetUserItemCount_def GetUserCheckoutCount_def)
  have checked: "HasUserCheckedOutItem (env_fails env AtHasUserCheckedOutItem 0 0) r
                   (sale_ID activeSale) (cmd_UserID cmd) (cmd_ItemID cmd) \<noteq> Inr True"
    using assms(5) by (auto simp: HasUserCheckedOutItem_def)
  have "Handle env maxItemsLimit (d, r) cmd = Handle_item env activeSale (d, r) cmd"
    using assms(1,2) bloom slots checked by (simp add: Handle_def)
  then show ?thesis
    by (simp add: Handle_item_def GetItemByID_def IsSold_def split: option.splits)
qed

text \<open>
  With the three reads of the cache failing: the checkout of the unsold \<open>i1\<close> is
  admitted although the filter's bits cover \<open>i1\<close>, and the checkout of \<open>i2\<close>, sold in
  the durable store, is rejected.
\<close>

theorem admission_checks_fail_open_witness:
  "cacheReadsDown AtBloomContains 0 0 \<and> cacheReadsDown AtGetUserItemCount 0 0
   \<and> cacheReadsDown AtHasUserCheckedOutItem 0 0
   \<and> fst (Handle (env0\<lparr>env_fails := cacheReadsDown\<rparr>) 10 (dbSold, redisFP) cmd1)
       = Inr \<lparr>resp_Code = ''CHK-S1-00'', resp_ItemsCount = 1, resp_SaleEndsAt = 100\<rparr>
   \<and> fst (Handle (env0\<lparr>env_fails := cacheReadsDown\<rparr>) 10 (dbSold, redisFP) cmd2)
       = Inl ErrItemAlreadySold"
proof -
  let ?env = "env0\<lparr>env_fails := cacheReadsDown\<rparr>"
  have act: "IsActive sale1 (env_now ?env)"
    by (simp add: IsActive_def sale1_def env0_def)
  have sale: "GetActiveSale (env_fails ?env AtGetActiveSale 0 0) dbSold (env_now ?env) = Inr sale1"
    by (simp add: GetActiveSale_def dbSold_def db0_def sale1_def env0_def cacheReadsDown_def)
  have down: "env_fails ?env AtBloomContains 0 0" "env_fails ?env AtGetUserItemCount 0 0"
    "env_fails ?env AtHasUserCheckedOutItem 0 0" "\<not> env_fails ?env AtGetItemByID 0 0"
    by (simp_all add: cacheReadsDown_def)
  have i1: "tbl_items dbSold (cmd_ItemID cmd1) = Some (unsold ''i1'')"
    and i2: "tbl_items dbSold (cmd_ItemID cmd2) = Some (soldTo ''u2'' ''i2'')"
    by (simp_all add: dbSold_def db0_def cmd1_def cmd2_def)
  have h1: "Handle ?env 10 (dbSold, redisFP) cmd1
              = Handle_checkout ?env sale1 (dbSold, redisFP) cmd1"
    using admission_checks_fail_open [of ?env dbSold sale1 redisFP cmd1 10, OF sale act] down i1
    by (simp add: unsold_def sale1_def)
  have h2: "fst (Handle ?env 10 (dbSold, redisFP) cmd2) = Inl ErrItemAlreadySold"
    using admission_checks_fail_open [of ?env dbSold sale1 redisFP cmd2 10, OF sale act] down i2
    by (simp add: unsold_def soldTo_def sale1_def)
  have co: "fst (Handle_checkout ?env sale1 (dbSold, redisFP) cmd1)
              = Inr \<lparr>resp_Code = ''CHK-S1-00'', resp_ItemsCount = 1, resp_SaleEndsAt = 100\<rparr>"
    by (simp add: eval_simps dbSold_def redisFP_def cacheReadsDown_def soldTo_def)
  show ?thesis
    using h1 h2 co by (simp add: cacheReadsDown_def)
qed

text \<open>
  Claim C7 at its failing input. At the instant \<open>now = started_at\<close> the query of
  \<^verbatim>\<open>GetActiveSale\<close> (\<^verbatim>\<open>started_at <= NOW()\<close>) returns the sale, and
  \<^verbatim>\<open>IsActive\<close> (\<^verbatim>\<open>now.After(s.StartedAt)\<close>) refuses it: the checkout fails with
  \<^verbatim>\<open>SaleNotActive\<close>.
\<close>

theorem checkout_at_start_instant_rejected:
  "Handle (env0\<lparr>env_now := StartedAt sale1\<rparr>) 10 (db0, redis0)
      \<lparr>cmd_UserID = ''u1'', cmd_ItemID = ''i1''\<rparr>
     = (Inl ErrSaleNotActive, (db0, redis0))
   \<and> GetActiveSale False db0 (StartedAt sale1) = Inr sale1"
  by (simp add: Handle_def env0_def quiet_def GetActiveSale_def db0_def sale1_def IsActive_def)



section \<open>Results about the purchase engine\<close>

subsection \<open>Purchasing a code a second time\<close>

text \<open>
  Claim C2, as stated, fails: after the checkout of \<open>i1\<close> and a first purchase that
  succeeds and stores its result, the second purchase of the same code returns
  \<^verbatim>\<open>CheckoutNotFound\<close>, because the first purchase's cleanup deleted the checkout rows
  that \<^verbatim>\<open>ExecutePurchase\<close> loads before it reaches the idempotency probe.
\<close>

theorem second_purchase_not_found:
  "fst (ExecutePurchase env0 NewPurchaseUseCase afterCheckout ''CHK-S1-00'')
     = Inr (Some \<lparr>Success = True,
                   Items = [\<lparr>pir_ID = ''i1'', pir_Name = ''i1'', pir_Sold = True\<rparr>],
                   TotalPurchased = 1, FailedCount = 0\<rparr>)
   \<and> tbl_purchase_results (fst afterPurchase) ''CHK-S1-00'' \<noteq> None
   \<and> fst (ExecutePurchase env0 NewPurchaseUseCase afterPurchase ''CHK-S1-00'')
       = Inl ErrCheckoutNotFound"
  by (simp add: afterPurchase_def afterCheckout_def eval_simps)

lemma LogCheckoutAttempt_frame [simp]:
  "tbl_items (snd (LogCheckoutAttempt down now d s u c i)) = tbl_items d"
  "tbl_sales (snd (LogCheckoutAttempt down now d s u c i)) = tbl_sales d"
  "tbl_purchase_results (snd (LogCheckoutAttempt down now d s u c i)) = tbl_purchase_results d"
  "open_txs (snd (LogCheckoutAttempt down now d s u c i)) = open_txs d"
  by (simp_all add: LogCheckoutAttempt_def)

lemma logAttempts_frame [simp]:
  "tbl_items (logAttempts env a c i xs d) = tbl_items d"
  "tbl_sales (logAttempts env a c i xs d) = tbl_sales d"
  "tbl_purchase_results (logAttempts env a c i xs d) = tbl_purchase_results d"
  "open_txs (logAttempts env a c i xs d) = open_txs d"
  by (induction xs arbitrary: d i) simp_all

lemma sameSold_refl [simp]: "sameSold d d"
  by (simp add: sameSold_def)

lemma sameSold_trans: "sameSold d d' \<Longrightarrow> sameSold d' d'' \<Longrightarrow> sameSold d d''"
  by (simp add: sameSold_def)

lemma sameSold_logAttempts [simp]: "sameSold d (logAttempts env a c i xs d)"
  by (simp add: sameSold_def)

lemma sameSold_open_txs [simp]: "sameSold d (d'\<lparr>open_txs := n\<rparr>) = sameSold d d'"
  by (simp add: sameSold_def)

lemma attemptInTx_processed:
  assumes "tbl_purchase_results t (Code c) = Some stored"
  shows "attemptInTx env uc a (d, r) t c =
           (if env_fails env AtGetPurchaseResult a 0
            then (Inl ErrSQL, (snd (RollbackTx (env_fails env AtRollbackTx a 0) d), r))
            else (Inl ErrCheckoutAlreadyProcessed, (d, r)))"
  using assms by (simp add: attemptInTx_def GetPurchaseResult_def)

lemma attemptPurchase_processed:
  assumes "tbl_purchase_results d (Code c) = Some stored"
  shows "\<exists>e d'. attemptPurchase env uc a (d, r) c = (Inl e, (d', r)) \<and> sameSold d d'
                 \<and> e \<in> probeErrors"
proof -
  let ?d = "logAttempts env a c 0 (ItemIDs c) d"
  have t: "tbl_purchase_results ?d (Code c) = Some stored"
    using assms by simp
  show ?thesis
    by (simp add: attemptPurchase_def Let_def BeginTx_def attemptInTx_processed [OF t]
          RollbackTx_def probeErrors_def)
qed

lemma attemptPurchase_processed_quiet:
  assumes "tbl_purchase_results d (Code c) = Some stored"
    and "\<forall>k a i. \<not> env_fails env k a i"
    and "luaGET r (saleItemsSoldKey (SaleID c)) + int (length (ItemIDs c)) \<le> maxItemsPerSale uc"
    and "luaGET r (userCountKey (UserID c) (SaleID c)) + int (length (ItemIDs c))
           \<le> maxItemsPerUser uc"
  shows "fst (attemptPurchase env uc a (d, r) c) = Inl ErrCheckoutAlreadyProcessed"
proof -
  let ?d = "logAttempts env a c 0 (ItemIDs c) d"
  have t: "tbl_purchase_results ?d (Code c) = Some stored"
    using assms(1) by simp
  show ?thesis
    using assms(2-4)
    by (simp add: attemptPurchase_def Let_def BeginTx_def attemptInTx_processed [OF t]
          GetUserItemCount_def GetSaleItemCount_def)
qed

lemma purchaseLoop_processed:
  assumes "tbl_purchase_results d (Code c) = Some stored"
  shows "\<exists>res d'. purchaseLoop env uc c a k prev (d, r) = (res, (d', r)) \<and> sameSold d d'
                   \<and> (res = prev \<and> (k = 0 \<or> prev \<in> Inl ` probeErrors) \<or> (0 < k \<and> res \<in> Inl ` probeErrors))"
  using assms
proof (induction k arbitrary: a prev d)
  case 0
  then show ?case by simp
next
  case (Suc k)
  from attemptPurchase_processed [OF Suc.prems, of env uc a r]
  obtain e d1 where att: "attemptPurchase env uc a (d, r) c = (Inl e, (d1, r))"
    and same: "sameSold d d1" and e: "e \<in> probeErrors" by blast
  have stored1: "tbl_purchase_results d1 (Code c) = Some stored"
    using same Suc.prems by (simp add: sameSold_def)
  show ?case
  proof (cases "isBusinessLogicError e")
    case True
    then show ?thesis using att same e by simp
  next
    case False
    from Suc.IH [OF stored1, of "Suc a" "Inl e"]
    obtain res d2 where loop: "purchaseLoop env uc c (Suc a) k (Inl e) (d1, r) = (res, (d2, r))"
      and same2: "sameSold d1 d2"
      and res: "res = Inl e \<and> (k = 0 \<or> Inl e \<in> Inl ` probeErrors) \<or> 0 < k \<and> res \<in> Inl ` probeErrors"
      by blast
    have "res \<in> Inl ` probeErrors" using res e by auto
    then show ?thesis
      using att False loop sameSold_trans [OF same same2] by simp
  qed
qed

lemma GetCheckoutByCode_Code:
  "GetCheckoutByCode down d code = Inr c \<Longrightarrow> Code c = code"
proof -
  assume a: "GetCheckoutByCode down d code = Inr c"
  let ?rows = "filter (\<lambda>a. ca_checkout_code a = code) (tbl_checkout_attempts d)"
  let ?sorted = "sort_key (\<lambda>a. - ca_created_at a) ?rows"
  from a obtain row rest where s: "?sorted = row # rest" and c: "Code c = ca_checkout_code row"
    by (auto simp: GetCheckoutByCode_def split: if_splits list.splits)
  have "row \<in> set ?sorted" using s by simp
  then have "row \<in> set ?rows" by simp
  then show ?thesis using c by simp
qed

lemma sameSold_DeleteCheckout [simp]: "sameSold d (snd (DeleteCheckout down d code))"
  by (simp add: DeleteCheckout_def sameSold_def)

text \<open>
  Claim C2, amended. For a checkout code with a stored purchase result, an invocation of
  \<^verbatim>\<open>ExecutePurchase\<close> never succeeds and leaves the items, the sale rows and the
  stored results as they were: no item is marked sold, \<^verbatim>\<open>items_sold\<close> is not updated
  and the stored result is not modified. When no call fails, the checkout row still
  exists, the lock is free and the advisory counters admit the checkout, the error is
  \<^verbatim>\<open>CheckoutAlreadyProcessed\<close>.
\<close>

theorem committed_code_is_not_purchased_again:
  assumes "tbl_purchase_results d code = Some stored"
    and "0 < retryAttempts uc"
    and "ExecutePurchase env uc (d, r) code = (res, (d', r'))"
  shows "(\<exists>e. res = Inl e)
         \<and> tbl_items d' = tbl_items d \<and> tbl_sales d' = tbl_sales d
         \<and> tbl_purchase_results d' = tbl_purchase_results d
         \<and> ((\<forall>k a i. \<not> env_fails env k a i)
              \<and> GetCheckoutByCode False d code = Inr checkout
              \<and> strs r (lockKeyOf (''purchase:'' @ code)) = None
              \<and> luaGET r (saleItemsSoldKey (SaleID checkout)) + int (length (ItemIDs checkout))
                   \<le> maxItemsPerSale uc
              \<and> luaGET r (userCountKey (UserID checkout) (SaleID checkout))
                     + int (length (ItemIDs checkout)) \<le> maxItemsPerUser uc
             \<longrightarrow> res = Inl ErrCheckoutAlreadyProcessed)"
proof -
  have general: "(\<exists>e. res = Inl e) \<and> sameSold d d'"
  proof (cases "CheckoutCodeExists (env_fails env AtCheckoutCodeExists 0 0) r code")
    case (Inl e)
    then show ?thesis using assms(3) by (auto simp: ExecutePurchase_def)
  next
    case (Inr exists)
    show ?thesis
    proof (cases "GetCheckoutByCode (env_fails env AtGetCheckoutByCode 0 0) d code")
      case (Inl e)
      then show ?thesis using assms(3) Inr by (auto simp: ExecutePurchase_def)
    next
      case co: (Inr c)
      have code: "Code c = code" using co by (rule GetCheckoutByCode_Code)
      define r1 where "r1 = (if \<not> exists
                         then snd (SetCheckoutCode (env_fails env AtSetCheckoutCode 0 0) r code)
                         else r)"
      obtain lres r2 where lock:
        "DistributedLock (env_fails env AtDistributedLock 0 0) r1 (''purchase:'' @ code) = (lres, r2)"
        by (cases "DistributedLock (env_fails env AtDistributedLock 0 0) r1 (''purchase:'' @ code)")
      have stored: "tbl_purchase_results d (Code c) = Some stored"
        using assms(1) code by simp
      from purchaseLoop_processed [OF stored, of env uc 0 "retryAttempts uc" "Inr None" r2]
      obtain lr d3 where loop:
        "purchaseLoop env uc c 0 (retryAttempts uc) (Inr None) (d, r2) = (lr, (d3, r2))"
        and same: "sameSold d d3" and lr: "lr \<in> Inl ` probeErrors"
        using assms(2) by auto
      from lr obtain e where lre: "lr = Inl e" by auto
      show ?thesis
        using assms(3) Inr co lock loop same lre
        by (cases lres)
           (auto simp: ExecutePurchase_def Let_def r1_def releaseDeferred_def split: if_splits)
    qed
  qed
  have quiet: "res = Inl ErrCheckoutAlreadyProcessed"
    if q: "\<forall>k a i. \<not> env_fails env k a i"
      and co: "GetCheckoutByCode False d code = Inr checkout"
      and free: "strs r (lockKeyOf (''purchase:'' @ code)) = None"
      and lim1: "luaGET r (saleItemsSoldKey (SaleID checkout)) + int (length (ItemIDs checkout))
                   \<le> maxItemsPerSale uc"
      and lim2: "luaGET r (userCountKey (UserID checkout) (SaleID checkout))
                     + int (length (ItemIDs checkout)) \<le> maxItemsPerUser uc"
  proof -
    have code: "Code checkout = code" using co by (rule GetCheckoutByCode_Code)
    define r1 where "r1 = (if strs r (checkoutKey code) = None
                           then r\<lparr>strs := (strs r)(checkoutKey code \<mapsto> ''1'')\<rparr> else r)"
    define r2 where "r2 = r1\<lparr>strs := (strs r1)(lockKeyOf (''purchase:'' @ code) \<mapsto> ''1'')\<rparr>"
    have neq: "checkoutKey code \<noteq> lockKeyOf (''purchase:'' @ code)"
      by (simp add: checkoutKey_def lockKeyOf_def)
    have free1: "strs r1 (lockKeyOf (''purchase:'' @ code)) = None"
      using free neq by (simp add: r1_def)
    have ints2: "ints r2 = ints r" by (simp add: r2_def r1_def)
    have stored: "tbl_purchase_results d (Code checkout) = Some stored"
      using assms(1) code by simp
    have lim1': "luaGET r2 (saleItemsSoldKey (SaleID checkout)) + int (length (ItemIDs checkout))
                   \<le> maxItemsPerSale uc"
      using lim1 ints2 by (simp add: luaGET_def)
    have lim2': "luaGET r2 (userCountKey (UserID checkout) (SaleID checkout))
                     + int (length (ItemIDs checkout)) \<le> maxItemsPerUser uc"
      using lim2 ints2 by (simp add: luaGET_def)
    have att: "fst (attemptPurchase env uc 0 (d, r2) checkout) = Inl ErrCheckoutAlreadyProcessed"
      by (rule attemptPurchase_processed_quiet [OF stored q lim1' lim2'])
    obtain k where k: "retryAttempts uc = Suc k"
      using assms(2) by (cases "retryAttempts uc") auto
    have loop: "fst (purchaseLoop env uc checkout 0 (retryAttempts uc) (Inr None) (d, r2))
                  = Inl ErrCheckoutAlreadyProcessed"
    proof -
      obtain w' where "attemptPurchase env uc 0 (d, r2) checkout
                         = (Inl ErrCheckoutAlreadyProcessed, w')"
        using att by (cases "attemptPurchase env uc 0 (d, r2) checkout") auto
      then show ?thesis by (simp add: k isBusinessLogicError_def)
    qed
    obtain w3 where loop3:
      "purchaseLoop env uc checkout 0 (retryAttempts uc) (Inr None) (d, r2)
         = (Inl ErrCheckoutAlreadyProcessed, w3)"
      using loop
      by (cases "purchaseLoop env uc checkout 0 (retryAttempts uc) (Inr None) (d, r2)") auto
    have exists: "CheckoutCodeExists (env_fails env AtCheckoutCodeExists 0 0) r code
                    = Inr (strs r (checkoutKey code) \<noteq> None)"
      using q by (simp add: CheckoutCodeExists_def)
    have co': "GetCheckoutByCode (env_fails env AtGetCheckoutByCode 0 0) d code = Inr checkout"
      using q co by simp
    have lock: "DistributedLock (env_fails env AtDistributedLock 0 0) r1 (''purchase:'' @ code)
                  = (Inr True, r2)"
      using q free1 by (simp add: DistributedLock_def r2_def)
    have "fst (ExecutePurchase env uc (d, r) code) = Inl ErrCheckoutAlreadyProcessed"
    proof (cases "strs r (checkoutKey code) = None")
      case True
      then have "r1 = snd (SetCheckoutCode (env_fails env AtSetCheckoutCode 0 0) r code)"
        using q by (simp add: r1_def SetCheckoutCode_def)
      with lock have "DistributedLock (env_fails env AtDistributedLock 0 0)
                        (snd (SetCheckoutCode (env_fails env AtSetCheckoutCode 0 0) r code))
                        (''purchase:'' @ code) = (Inr True, r2)"
        by simp
      then show ?thesis
        using True by (simp add: ExecutePurchase_def Let_def exists co' loop3)
    next
      case False
      then have "r1 = r" by (auto simp: r1_def)
      with lock have "DistributedLock (env_fails env AtDistributedLock 0 0) r
                        (''purchase:'' @ code) = (Inr True, r2)"
        by simp
      then show ?thesis
        using False by (simp add: ExecutePurchase_def Let_def exists co' loop3)
    qed
    then show ?thesis using assms(3) by simp
  qed
  show ?thesis
    using general quiet by (auto simp: sameSold_def)
qed


theorem committed_code_is_not_purchased_again_witness:
  "tbl_purchase_results (fst afterFailedCommit) ''CHK-S1-00'' \<noteq> None
   \<and> fst (ExecutePurchase env0 NewPurchaseUseCase afterFailedCommit ''CHK-S1-00'')
       = Inl ErrCheckoutAlreadyProcessed"
proof -
  obtain stored where stored:
    "tbl_purchase_results (fst afterFailedCommit) ''CHK-S1-00'' = Some stored"
    by (simp add: afterFailedCommit_def afterCheckout_def commitFailsOnce_def eval_simps)
  have co: "GetCheckoutByCode False (fst afterFailedCommit) ''CHK-S1-00''
              = Inr \<lparr>Code = ''CHK-S1-00'', SaleID = ''S1'', UserID = ''u1'',
                      ItemIDs = [''i1'', ''i1'', ''i1''], CreatedAt = 50\<rparr>"
    by (simp add: afterFailedCommit_def afterCheckout_def commitFailsOnce_def eval_simps)
  have cache: "strs (snd afterFailedCommit) (lockKeyOf (''purchase:'' @ ''CHK-S1-00'')) = None
               \<and> luaGET (snd afterFailedCommit) (saleItemsSoldKey ''S1'') = 1
               \<and> luaGET (snd afterFailedCommit) (userCountKey ''u1'' ''S1'') = 1"
    by (simp add: afterFailedCommit_def afterCheckout_def commitFailsOnce_def eval_simps)
  show ?thesis
    using stored co cache
      committed_code_is_not_purchased_again
        [of "fst afterFailedCommit" "''CHK-S1-00''" stored NewPurchaseUseCase env0
            "snd afterFailedCommit"
            "fst (ExecutePurchase env0 NewPurchaseUseCase afterFailedCommit ''CHK-S1-00'')"
            "fst (snd (ExecutePurchase env0 NewPurchaseUseCase afterFailedCommit ''CHK-S1-00''))"
            "snd (snd (ExecutePurchase env0 NewPurchaseUseCase afterFailedCommit ''CHK-S1-00''))"
            "\<lparr>Code = ''CHK-S1-00'', SaleID = ''S1'', UserID = ''u1'',
              ItemIDs = [''i1'', ''i1'', ''i1''], CreatedAt = 50\<rparr>"]
    by (simp add: env0_def quiet_def NewPurchaseUseCase_def)
qed

subsection \<open>The cache counters and the commit\<close>

text \<open>
  Claim C4 at its failing input. User \<open>u1\<close> purchases the checkout of \<open>i1\<close>, and
  the commit of the first attempt fails. That attempt has already incremented both cache
  counters; the second attempt skips \<open>i1\<close>, which the first one added to the filter, and
  commits an empty purchase. The purchase ends with \<^verbatim>\<open>AllItemsSold\<close>, the item unsold
  in the store, and both counters at 1, although no transaction that sold an item was
  committed.
\<close>

theorem counters_incremented_without_commit:
  "fst (ExecutePurchase (env0\<lparr>env_fails := commitFailsOnce\<rparr>) NewPurchaseUseCase afterCheckout
          ''CHK-S1-00'') = Inl ErrAllItemsSold
   \<and> map_option Sold
        (tbl_items (fst afterFailedCommit) ''i1'')
       = Some False
   \<and> luaGET (snd (afterFailedCommit))
        (userCountKey ''u1'' ''S1'') = 1
   \<and> luaGET (snd (afterFailedCommit))
        (saleItemsSoldKey ''S1'') = 1
   \<and> luaGET (snd afterCheckout) (userCountKey ''u1'' ''S1'') = 0"
  by (simp add: afterFailedCommit_def afterCheckout_def commitFailsOnce_def eval_simps)

subsection \<open>The cap of items per user\<close>

text \<open>
  Claim C3 at its failing input. User \<open>u1\<close> holds ten sold items of the sale and the
  cache has no counter for the user. The purchase of a checkout with an eleventh item
  succeeds: the advisory check reads the absent counter as 0, the validation counts from
  \<^verbatim>\<open>CurrentItemCount: 0\<close>, and the store then has eleven items of the sale sold to
  \<open>u1\<close>, above \<^verbatim>\<open>maxItemsPerUser = 10\<close>.
\<close>

theorem eleventh_item_sold_to_user:
  "list_all (\<lambda>i. map_option SoldToUserID (tbl_items dbTenSold i) = Some (Some ''u1'')) tenItems
   \<and> fst (ExecutePurchase env0 NewPurchaseUseCase (dbTenSold, redis0) ''CHK-S1-01'')
       = Inr (Some \<lparr>Success = True,
                     Items = [\<lparr>pir_ID = ''b1'', pir_Name = ''b1'', pir_Sold = True\<rparr>],
                     TotalPurchased = 1, FailedCount = 0\<rparr>)
   \<and> list_all (\<lambda>i. map_option SoldToUserID
                       (tbl_items (fst (snd (ExecutePurchase env0 NewPurchaseUseCase
                                               (dbTenSold, redis0) ''CHK-S1-01''))) i)
                     = Some (Some ''u1''))
               (''b1'' # tenItems)
   \<and> distinct (''b1'' # tenItems) \<and> length (''b1'' # tenItems) = 11
   \<and> maxItemsPerUser NewPurchaseUseCase = 10"
  by (simp add: dbTenSold_def tenItems_def soldTo_def eval_simps hash_simps)



subsection \<open>No item is sold twice\<close>

text \<open>Every event keeps what holds of the attempts in flight.\<close>

lemma InvI: "(\<And>p pu. cs_flights c p = Some pu \<Longrightarrow> good (cs_items c) (cs_locks c) p pu) \<Longrightarrow> Inv c"
  by (simp add: Inv_def)

lemma InvD: "Inv c \<Longrightarrow> cs_flights c p = Some pu \<Longrightarrow> good (cs_items c) (cs_locks c) p pu"
  by (simp add: Inv_def)

lemma good_frame:
  assumes "good tbl locks p pu"
    and "\<And>x. x \<in> dom (pu_writes pu) \<Longrightarrow> tbl' x = tbl x \<and> locks' x = locks x"
  shows "good tbl' locks' p pu"
  using assms unfolding good_def by (metis domI)

lemma good_rest:
  assumes "good tbl locks p pu" and "set rest \<subseteq> set (pu_rest pu)"
  shows "good tbl locks p (pu\<lparr>pu_rest := rest\<rparr>)"
  using assms unfolding good_def by auto

lemma good_failed:
  assumes "good tbl locks p pu"
  shows "good tbl locks p (pu\<lparr>pu_failed := b\<rparr>)"
  using assms unfolding good_def by auto

lemma good_txBegin: "good (cs_items c) (cs_locks c) p (txBegin c u ids now)"
  by (simp add: good_def txBegin_def Let_def)

lemma Inv_Begin:
  assumes "Inv c"
  shows "Inv (snd (cstep svc (Begin p u ids now) c))"
proof (cases "cs_flights c p")
  case (Some pu)
  then show ?thesis using assms by simp
next
  case None
  show ?thesis
  proof (rule InvI)
    fix q pu
    assume "cs_flights (snd (cstep svc (Begin p u ids now) c)) q = Some pu"
    then have "(q = p \<and> pu = txBegin c u ids now) \<or> (q \<noteq> p \<and> cs_flights c q = Some pu)"
      using None by (auto split: if_splits)
    then show "good (cs_items (snd (cstep svc (Begin p u ids now) c)))
                 (cs_locks (snd (cstep svc (Begin p u ids now) c))) q pu"
      using None InvD [OF assms, of q pu] good_txBegin [of c p u ids now] by auto
  qed
qed

lemma Inv_Filtered:
  assumes "Inv c"
  shows "Inv (snd (cstep svc (Filtered p) c))"
proof (cases "cs_flights c p")
  case None
  then show ?thesis using assms by simp
next
  case (Some pu)
  show ?thesis
  proof (cases "pu_rest pu")
    case Nil
    then show ?thesis using assms Some by simp
  next
    case (Cons item rest)
    have c': "snd (cstep svc (Filtered p) c)
                = c\<lparr>cs_flights := (cs_flights c)(p \<mapsto> pu\<lparr>pu_rest := rest\<rparr>)\<rparr>"
      using Some Cons by simp
    show ?thesis
      unfolding c'
    proof (rule InvI)
      fix q pu'
      assume "cs_flights (c\<lparr>cs_flights := (cs_flights c)(p \<mapsto> pu\<lparr>pu_rest := rest\<rparr>)\<rparr>) q = Some pu'"
      then have "(q = p \<and> pu' = pu\<lparr>pu_rest := rest\<rparr>) \<or> (q \<noteq> p \<and> cs_flights c q = Some pu')"
        by (auto split: if_splits)
      moreover have "good (cs_items c) (cs_locks c) p (pu\<lparr>pu_rest := rest\<rparr>)"
        using good_rest [OF InvD [OF assms Some], of rest] Cons by auto
      ultimately show "good (cs_items (c\<lparr>cs_flights := (cs_flights c)(p \<mapsto> pu\<lparr>pu_rest := rest\<rparr>)\<rparr>))
                 (cs_locks (c\<lparr>cs_flights := (cs_flights c)(p \<mapsto> pu\<lparr>pu_rest := rest\<rparr>)\<rparr>)) q pu'"
        using InvD [OF assms, of q pu'] by auto
    qed
  qed
qed

lemma Inv_txEnd:
  assumes "Inv c"
  shows "Inv (txEnd p c)"
proof (rule InvI)
  fix q pu
  assume "cs_flights (txEnd p c) q = Some pu"
  then have q: "q \<noteq> p" "cs_flights c q = Some pu"
    by (auto simp: txEnd_def split: if_splits)
  have g: "good (cs_items c) (cs_locks c) q pu" by (rule InvD [OF assms q(2)])
  have "\<And>x. x \<in> dom (pu_writes pu) \<Longrightarrow>
          cs_items (txEnd p c) x = cs_items c x \<and> cs_locks (txEnd p c) x = cs_locks c x"
    using g q(1) by (auto simp: good_def txEnd_def)
  with g show "good (cs_items (txEnd p c)) (cs_locks (txEnd p c)) q pu"
    by (rule good_frame)
qed

lemma Inv_install:
  assumes inv: "Inv c" and p: "cs_flights c p = Some pu"
  shows "Inv (txEnd p (c\<lparr>cs_items := cs_items c ++ pu_writes pu\<rparr>))"
proof (rule InvI)
  let ?c' = "txEnd p (c\<lparr>cs_items := cs_items c ++ pu_writes pu\<rparr>)"
  fix q puq
  assume "cs_flights ?c' q = Some puq"
  then have q: "q \<noteq> p" "cs_flights c q = Some puq"
    by (auto simp: txEnd_def split: if_splits)
  have g: "good (cs_items c) (cs_locks c) q puq" by (rule InvD [OF inv q(2)])
  have gp: "good (cs_items c) (cs_locks c) p pu" by (rule InvD [OF inv p])
  have "\<And>x. x \<in> dom (pu_writes puq) \<Longrightarrow>
          cs_items ?c' x = cs_items c x \<and> cs_locks ?c' x = cs_locks c x"
  proof -
    fix x assume "x \<in> dom (pu_writes puq)"
    then have lock: "cs_locks c x = Some q" using g by (auto simp: good_def)
    then have "pu_writes pu x = None"
      using gp q(1) by (cases "pu_writes pu x") (auto simp: good_def)
    then show "cs_items ?c' x = cs_items c x \<and> cs_locks ?c' x = cs_locks c x"
      using lock q(1) by (simp add: txEnd_def map_add_def)
  qed
  with g show "good (cs_items ?c') (cs_locks ?c') q puq"
    by (rule good_frame)
qed

lemma Inv_Commit:
  assumes "Inv c"
  shows "Inv (snd (cstep svc (Commit p) c))"
proof (cases "cs_flights c p")
  case None
  then show ?thesis using assms by simp
next
  case (Some pu)
  then show ?thesis
    using assms Inv_txEnd [OF assms, of p] Inv_install [OF assms Some]
    by (simp split: if_splits)
qed

lemma Inv_Abandon: "Inv c \<Longrightarrow> Inv (snd (cstep svc (Abandon p) c))"
  by (simp add: Inv_txEnd)

lemma Inv_upd:
  assumes inv: "Inv c" and p: "cs_flights c p = Some pu"
    and g: "good (cs_items c) (cs_locks c) p pu'"
  shows "Inv (c\<lparr>cs_flights := (cs_flights c)(p \<mapsto> pu')\<rparr>)"
proof (rule InvI)
  fix q puq
  assume "cs_flights (c\<lparr>cs_flights := (cs_flights c)(p \<mapsto> pu')\<rparr>) q = Some puq"
  then have "(q = p \<and> puq = pu') \<or> (q \<noteq> p \<and> cs_flights c q = Some puq)"
    by (auto split: if_splits)
  then show "good (cs_items (c\<lparr>cs_flights := (cs_flights c)(p \<mapsto> pu')\<rparr>))
               (cs_locks (c\<lparr>cs_flights := (cs_flights c)(p \<mapsto> pu')\<rparr>)) q puq"
    using g InvD [OF inv, of q puq] by auto
qed

lemma Inv_marked:
  assumes inv: "Inv c" and p: "cs_flights c p = Some pu"
    and rest: "pu_rest pu = item # rest"
    and free: "cs_locks c (item_ID item) = None"
    and view: "(pu_snapshot pu ++ pu_writes pu) (item_ID item) = Some i" "\<not> Sold i"
    and same: "cs_items c (item_ID item) = pu_snapshot pu (item_ID item)"
  shows "Inv (c\<lparr>cs_locks := (cs_locks c)(item_ID item \<mapsto> p),
                cs_flights := (cs_flights c)
                  (p \<mapsto> pu\<lparr>pu_writes := (pu_writes pu)
                              (item_ID item \<mapsto> markedRow i (pu_userID pu) (pu_now pu)),
                            pu_rest := rest,
                            pu_successful := pu_successful pu @ [item_ID item]\<rparr>)\<rparr>)"
    (is "Inv ?c'")
proof (rule InvI)
  let ?x = "item_ID item"
  let ?pu' = "pu\<lparr>pu_writes := (pu_writes pu)(?x \<mapsto> markedRow i (pu_userID pu) (pu_now pu)),
                  pu_rest := rest, pu_successful := pu_successful pu @ [?x]\<rparr>"
  have gp: "good (cs_items c) (cs_locks c) p pu" by (rule InvD [OF inv p])
  have nowrite: "pu_writes pu ?x = None"
    using gp free by (cases "pu_writes pu ?x") (auto simp: good_def)
  with view same have row: "cs_items c ?x = Some i" by (simp add: map_add_def)
  have mem: "?x \<in> item_ID ` set (pu_items pu)"
    using gp rest by (auto simp: good_def)
  fix q puq
  assume "cs_flights ?c' q = Some puq"
  then consider "q = p" "puq = ?pu'" | "q \<noteq> p" "cs_flights c q = Some puq"
    by (auto split: if_splits)
  then show "good (cs_items ?c') (cs_locks ?c') q puq"
  proof cases
    case 1
    have "good (cs_items c) ((cs_locks c)(?x \<mapsto> p)) p ?pu'"
      using gp row view(2) mem rest unfolding good_def by auto
    then show ?thesis using 1 by simp
  next
    case 2
    have g: "good (cs_items c) (cs_locks c) q puq" by (rule InvD [OF inv 2(2)])
    have "\<And>y. y \<in> dom (pu_writes puq) \<Longrightarrow>
            cs_items ?c' y = cs_items c y \<and> cs_locks ?c' y = cs_locks c y"
      using g free by (auto simp: good_def)
    with g show ?thesis by (rule good_frame)
  qed
qed

lemma Inv_Update:
  assumes "Inv c"
  shows "Inv (snd (cstep svc (Update p down) c))"
proof (cases "cs_flights c p")
  case None
  then show ?thesis using assms by simp
next
  case (Some pu)
  note gp = InvD [OF assms Some]
  show ?thesis
  proof (cases "pu_rest pu")
    case Nil
    then show ?thesis using assms Some by simp
  next
    case (Cons item rest)
    have sub: "set rest \<subseteq> set (pu_rest pu)" using Cons by auto
    have plain: "Inv (c\<lparr>cs_flights := (cs_flights c)(p \<mapsto> pu\<lparr>pu_rest := rest\<rparr>)\<rparr>)"
      by (rule Inv_upd [OF assms Some good_rest [OF gp sub]])
    have failed: "Inv (c\<lparr>cs_flights := (cs_flights c)(p \<mapsto> pu\<lparr>pu_failed := True, pu_rest := rest\<rparr>)\<rparr>)"
      using Inv_upd [OF assms Some good_rest [OF good_failed [OF gp, of True], of rest]] sub
      by simp
    show ?thesis
    proof (cases "txMarkItemAsSold down p c pu (item_ID item)")
      case None
      then show ?thesis using assms Some Cons by simp
    next
      case (Some out)
      obtain res c' pu' where out: "out = (res, c', pu')" by (cases out)
      show ?thesis
      proof (cases res)
        case (Inl e)
        with Some out have "c' = c \<and> (pu' = pu \<or> pu' = pu\<lparr>pu_failed := True\<rparr>)"
          by (auto simp: txMarkItemAsSold_def split: if_splits option.splits)
        then show ?thesis
          using \<open>cs_flights c p = Some pu\<close> Cons Some out Inl plain failed by auto
      next
        case (Inr success)
        show ?thesis
        proof (cases success)
          case False
          with Some out Inr have "c' = c \<and> pu' = pu"
            by (auto simp: txMarkItemAsSold_def split: if_splits option.splits)
          then show ?thesis
            using \<open>cs_flights c p = Some pu\<close> Cons Some out Inr False plain by simp
        next
          case True
          with Some out Inr obtain i where
            view: "(pu_snapshot pu ++ pu_writes pu) (item_ID item) = Some i" "\<not> Sold i"
            and free: "cs_locks c (item_ID item) = None"
            and same: "cs_items c (item_ID item) = pu_snapshot pu (item_ID item)"
            and c': "c' = c\<lparr>cs_locks := (cs_locks c)(item_ID item \<mapsto> p)\<rparr>"
            and pu': "pu' = pu\<lparr>pu_writes := (pu_writes pu)
                               (item_ID item \<mapsto> markedRow i (pu_userID pu) (pu_now pu))\<rparr>"
            by (auto simp: txMarkItemAsSold_def split: if_splits option.splits)
          from Inv_marked [OF assms \<open>cs_flights c p = Some pu\<close> Cons free view same]
          show ?thesis
            using \<open>cs_flights c p = Some pu\<close> Cons Some out Inr True c' pu' by simp
        qed
      qed
    qed
  qed
qed

lemma Inv_cstep: "Inv c \<Longrightarrow> Inv (snd (cstep svc e c))"
  by (cases e) (simp_all only: Inv_Begin Inv_Filtered Inv_Update Inv_Commit Inv_Abandon)

text \<open>
  An attempt that is in flight alone: the events of its loop and its commit install the
  table that the engine's transaction holds after \<^verbatim>\<open>markItems\<close>, the one
  \<^verbatim>\<open>CommitTx\<close> installs, and return the result that the engine computes from it.
\<close>

lemma crun_Cons: "crun svc (e # es) c = crun svc es (snd (cstep svc e c))"
  by (simp add: crun_def)

lemma lone_loop:
  assumes "alone c p pu"
    and "pu_snapshot pu ++ pu_writes pu = tbl_items t"
    and "pu_rest pu = items" and "pu_successful pu = succ"
    and "pu_userID pu = userID" and "pu_now pu = env_now env"
    and "markItems env a userID i items (t, r, succ) = (t1, r1, succ1)"
  shows "\<exists>pu'. alone (crun svc (eventsOf env a p i items r) c) p pu'
           \<and> pu_snapshot pu' ++ pu_writes pu' = tbl_items t1
           \<and> pu_rest pu' = [] \<and> pu_successful pu' = succ1
           \<and> pu_items pu' = pu_items pu \<and> pu_snapshot pu' = pu_snapshot pu"
  using assms
proof (induction items arbitrary: c pu t r succ i)
  case Nil
  then show ?case by (auto simp: crun_def)
next
  case (Cons item rest)
  note al = Cons.prems(1)
  have fl: "cs_flights c p = Some pu" using al by (simp add: alone_def)
  let ?x = "item_ID item"
  show ?case
  proof (cases "ItemExistsInBloomFilter (env_fails env AtBloomContains a i) (env_sha env) r ?x
                  = Inr True")
    case True
    let ?pu = "pu\<lparr>pu_rest := rest\<rparr>"
    let ?c = "c\<lparr>cs_flights := (cs_flights c)(p \<mapsto> ?pu)\<rparr>"
    have st: "snd (cstep svc (Filtered p) c) = ?c"
      using fl Cons.prems(3) by simp
    have al': "alone ?c p ?pu" using al by (simp add: alone_def)
    have mk: "markItems env a userID (Suc i) rest (t, r, succ) = (t1, r1, succ1)"
      using Cons.prems(7) True by simp
    from Cons.IH [OF al' _ _ _ _ _ mk] Cons.prems(2,4,5,6)
    show ?thesis using True st by (simp add: crun_Cons)
  next
    case False
    let ?down = "env_fails env AtMarkItemAsSold a i"
    show ?thesis
    proof (cases ?down)
      case True
      let ?pu = "pu\<lparr>pu_rest := rest\<rparr>"
      let ?c = "c\<lparr>cs_flights := (cs_flights c)(p \<mapsto> ?pu)\<rparr>"
      have st: "snd (cstep svc (Update p ?down) c) = ?c"
        using fl Cons.prems(3) True by (simp add: txMarkItemAsSold_def)
      have al': "alone ?c p ?pu" using al by (simp add: alone_def)
      have mk: "markItems env a userID (Suc i) rest (t, r, succ) = (t1, r1, succ1)"
        using Cons.prems(7) False True by (simp add: MarkItemAsSold_def)
      from Cons.IH [OF al' _ _ _ _ _ mk] Cons.prems(2,4,5,6)
      show ?thesis using False True st by (simp add: crun_Cons)
    next
      case down: False
      let ?r' = "snd (AddItemToBloomFilter (env_fails env AtBloomAdd a i) (env_sha env) r ?x)"
      have view: "(pu_snapshot pu ++ pu_writes pu) ?x = tbl_items t ?x"
        using Cons.prems(2) by simp
      show ?thesis
      proof (cases "\<exists>it. tbl_items t ?x = Some it \<and> \<not> Sold it")
        case False
        let ?pu = "pu\<lparr>pu_rest := rest\<rparr>"
        let ?c = "c\<lparr>cs_flights := (cs_flights c)(p \<mapsto> ?pu)\<rparr>"
        have st: "snd (cstep svc (Update p ?down) c) = ?c"
          using fl Cons.prems(3) down False view al
          by (auto simp: txMarkItemAsSold_def alone_def split: option.splits)
        have al': "alone ?c p ?pu" using al by (simp add: alone_def)
        have mk: "markItems env a userID (Suc i) rest (t, ?r', succ) = (t1, r1, succ1)"
          using Cons.prems(7) \<open>\<not> (ItemExistsInBloomFilter _ _ _ _ = Inr True)\<close> down False
          by (auto simp: MarkItemAsSold_def split: option.splits if_splits)
        from Cons.IH [OF al' _ _ _ _ _ mk] Cons.prems(2,4,5,6)
        show ?thesis
          using \<open>\<not> (ItemExistsInBloomFilter _ _ _ _ = Inr True)\<close> down st
          by (simp add: crun_Cons)
      next
        case True
        then obtain it where it: "tbl_items t ?x = Some it" "\<not> Sold it" by blast
        have nowrite: "pu_writes pu ?x = None"
          using al it view by (cases "pu_writes pu ?x") (auto simp: alone_def map_add_def)
        then have free: "cs_locks c ?x = None" using al by (auto simp: alone_def domIff)
        have same: "cs_items c ?x = pu_snapshot pu ?x" using al by (simp add: alone_def)
        let ?row = "markedRow it userID (env_now env)"
        let ?pu = "pu\<lparr>pu_writes := (pu_writes pu)(?x \<mapsto> ?row), pu_rest := rest,
                      pu_successful := succ @ [?x]\<rparr>"
        let ?c = "c\<lparr>cs_locks := (cs_locks c)(?x \<mapsto> p),
                     cs_flights := (cs_flights c)(p \<mapsto> ?pu)\<rparr>"
        have nf: "\<not> pu_failed pu" using al by (simp add: alone_def)
        have st: "snd (cstep svc (Update p ?down) c) = ?c"
          using fl Cons.prems(3,4,5,6) down it view free same nf
          by (simp add: txMarkItemAsSold_def)
        have al': "alone ?c p ?pu"
          using al by (auto simp: alone_def markedRow_def)
        let ?t = "t\<lparr>tbl_items := (tbl_items t)(?x \<mapsto> ?row)\<rparr>"
        have view': "pu_snapshot ?pu ++ pu_writes ?pu = tbl_items ?t"
          using Cons.prems(2) by (auto simp: map_add_def fun_eq_iff)
        have mk: "markItems env a userID (Suc i) rest (?t, ?r', succ @ [?x]) = (t1, r1, succ1)"
          using Cons.prems(7) \<open>\<not> (ItemExistsInBloomFilter _ _ _ _ = Inr True)\<close> down it
          by (simp add: MarkItemAsSold_def markedRow_def)
        from Cons.IH [OF al' view' _ _ _ _ mk] Cons.prems(5,6)
        show ?thesis
          using \<open>\<not> (ItemExistsInBloomFilter _ _ _ _ = Inr True)\<close> down st
          by (simp add: crun_Cons)
      qed
    qed
  qed
qed

lemma lone_purchase:
  assumes al: "alone c p pu"
    and fresh: "pu_writes pu = Map.empty" "pu_successful pu = []" "pu_rest pu = pu_items pu"
    and items: "pu_items pu \<noteq> []"
    and snap: "pu_snapshot pu = tbl_items t" and now: "pu_now pu = env_now env"
    and loop: "markItems env a (pu_userID pu) 0 (pu_items pu) (t, r, []) = (t1, r1, succ1)"
  shows "fst (cstep svc (Commit p) (crun svc (eventsOf env a p 0 (pu_items pu) r) c))
           = (if succ1 = [] then None
              else Some (CalculatePurchaseResult svc (pu_items pu) succ1))
         \<and> cs_items (snd (cstep svc (Commit p) (crun svc (eventsOf env a p 0 (pu_items pu) r) c)))
             = tbl_items t1"
proof -
  have view: "pu_snapshot pu ++ pu_writes pu = tbl_items t"
    using fresh(1) snap by simp
  from lone_loop [OF al view fresh(3) fresh(2) refl now loop, of svc]
  obtain pu' where al': "alone (crun svc (eventsOf env a p 0 (pu_items pu) r) c) p pu'"
    and view': "pu_snapshot pu' ++ pu_writes pu' = tbl_items t1"
    and fin: "pu_rest pu' = []" "pu_successful pu' = succ1" "pu_items pu' = pu_items pu"
    by blast
  let ?c = "crun svc (eventsOf env a p 0 (pu_items pu) r) c"
  have fl: "cs_flights ?c p = Some pu'" "\<not> pu_failed pu'" "cs_items ?c = pu_snapshot pu'"
    using al' by (simp_all add: alone_def)
  show ?thesis
    using fl fin items view' by (simp add: txEnd_def)
qed

text \<open>Every event satisfies \<open>stepOk\<close>, and so does every sequence of events.\<close>

lemma reportsSold_Calculate:
  "reportsSold x (Some (CalculatePurchaseResult svc loaded succ))
     = (x \<in> set succ \<and> x \<in> item_ID ` set loaded)"
  by (auto simp: reportsSold_def CalculatePurchaseResult_def list_ex_iff)

lemma stepOk_same: "tbl' x = tbl x \<Longrightarrow> \<not> reportsSold x rep \<Longrightarrow> stepOk x tbl (rep, tbl')"
  by (simp add: stepOk_def)

lemma reportsSold_None [simp]: "\<not> reportsSold x None"
  by (simp add: reportsSold_def)

lemma cs_items_txEnd [simp]: "cs_items (txEnd p c) = cs_items c"
  by (simp add: txEnd_def)

lemma cs_items_Update: "cs_items (snd (cstep svc (Update p down) c)) = cs_items c"
  by (auto simp: txMarkItemAsSold_def split: option.splits list.splits sum.splits if_splits)

lemma fst_Update: "fst (cstep svc (Update p down) c) = None"
  by (auto split: option.splits list.splits sum.splits prod.splits)

lemma step_Commit:
  assumes inv: "Inv c"
  shows "stepOk x (cs_items c) (fst (cstep svc (Commit p) c), cs_items (snd (cstep svc (Commit p) c)))"
proof (cases "cs_flights c p")
  case None
  then show ?thesis by (simp add: stepOk_same)
next
  case (Some pu)
  note g = InvD [OF inv Some]
  show ?thesis
  proof (cases "pu_rest pu \<noteq> [] \<or> length (pu_items pu) = 0 \<or> pu_failed pu")
    case True
    then show ?thesis using Some by (auto simp: stepOk_same)
  next
    case False
    let ?rep = "if length (pu_successful pu) = 0 then None
                else Some (CalculatePurchaseResult svc (pu_items pu) (pu_successful pu))"
    have out: "cstep svc (Commit p) c
                 = (?rep, txEnd p (c\<lparr>cs_items := cs_items c ++ pu_writes pu\<rparr>))"
      using Some False by simp
    have rep: "reportsSold x ?rep \<longleftrightarrow> x \<in> dom (pu_writes pu)"
      using g by (auto simp: reportsSold_Calculate good_def)
    show ?thesis
    proof (cases "pu_writes pu x")
      case None
      then have "\<not> reportsSold x ?rep" using rep by (simp add: domIff)
      moreover have "(cs_items c ++ pu_writes pu) x = cs_items c x"
        using None by (simp add: map_add_def)
      ultimately show ?thesis unfolding out by (simp add: stepOk_def)
    next
      case (Some it')
      then obtain it where it: "cs_items c x = Some it" "\<not> Sold it"
        "it' = markedRow it (pu_userID pu) (pu_now pu)"
        using g by (auto simp: good_def)
      have "reportsSold x ?rep" using rep Some by (simp add: domIff)
      moreover have "soldBy x (cs_items c) (cs_items c ++ pu_writes pu)"
        using it Some by (simp add: soldBy_def map_add_def markedRow_def)
      ultimately show ?thesis unfolding out by (simp add: stepOk_def)
    qed
  qed
qed

lemma step_cstep:
  assumes "Inv c"
  shows "stepOk x (cs_items c) (fst (cstep svc e c), cs_items (snd (cstep svc e c)))"
proof (cases e)
  case (Begin p u ids now)
  then show ?thesis by (auto simp: stepOk_same split: option.splits)
next
  case (Filtered p)
  then show ?thesis by (auto simp: stepOk_same split: option.splits list.splits)
next
  case (Update p down)
  then show ?thesis by (simp only: cs_items_Update fst_Update) (simp add: stepOk_same)
next
  case (Commit p)
  then show ?thesis using step_Commit [OF assms] by simp
next
  case (Abandon p)
  then show ?thesis by (simp add: stepOk_same)
qed

lemma cexec_chainOk: "Inv c \<Longrightarrow> chainOk x (cs_items c) (tables (cexec svc es c))"
proof (induction es arbitrary: c)
  case Nil
  then show ?case by (simp add: tables_def)
next
  case (Cons e es)
  obtain rep c' where s: "cstep svc e c = (rep, c')" by (cases "cstep svc e c")
  have "stepOk x (cs_items c) (rep, cs_items c')"
    using step_cstep [OF Cons.prems, of x svc e] s by simp
  moreover have "Inv c'" using Inv_cstep [OF Cons.prems, of svc e] s by simp
  ultimately show ?case using Cons.IH [of c'] s by (simp add: tables_def)
qed

lemma sold_stays:
  assumes "soldIn x tbl" and "chainOk x tbl tr"
  shows "reportsOf x tr = [] \<and> (\<forall>s \<in> set tr. buyerOf x (snd s) = buyerOf x tbl \<and> soldIn x (snd s))"
  using assms
proof (induction tr arbitrary: tbl)
  case Nil
  then show ?case by (simp add: reportsOf_def)
next
  case (Cons s rest)
  from Cons.prems have step: "stepOk x tbl s" and chain: "chainOk x (snd s) rest" by simp_all
  have norep: "\<not> reportsSold x (fst s)"
  proof
    assume "reportsSold x (fst s)"
    with step have "soldBy x tbl (snd s)" by (simp add: stepOk_def)
    with Cons.prems(1) show False
      by (auto simp: soldBy_def soldIn_def split: option.splits)
  qed
  with step have same: "snd s x = tbl x"
    by (simp add: stepOk_def)
  then have sold': "soldIn x (snd s)" and buyer': "buyerOf x (snd s) = buyerOf x tbl"
    using Cons.prems(1) by (simp_all add: soldIn_def buyerOf_def)
  from Cons.IH [OF sold' chain] norep sold' buyer' show ?case
    by (auto simp: reportsOf_def)
qed

lemma buyersOf_unsold:
  "\<not> soldIn x tbl \<Longrightarrow> buyersOf x (tbl # tbls) = buyersOf x tbls"
  by (auto simp: buyersOf_def buyerOf_def soldIn_def List.map_filter_simps split: option.splits)

lemma buyersOf_sold:
  assumes "soldIn x tbl" and "\<forall>v \<in> set tbls. buyerOf x v = buyerOf x tbl"
  shows "length (buyersOf x (tbl # tbls)) \<le> 1"
proof -
  from assms(1) obtain b where b: "buyerOf x tbl = Some b"
    by (auto simp: soldIn_def buyerOf_def split: option.splits)
  have "set (List.map_filter (buyerOf x) (tbl # tbls)) \<subseteq> {b}"
    using assms(2) b by (auto simp: List.map_filter_def)
  then have "set (buyersOf x (tbl # tbls)) \<subseteq> {b}" by (simp add: buyersOf_def)
  moreover have "distinct (buyersOf x (tbl # tbls))" by (simp add: buyersOf_def)
  ultimately have "card (set (buyersOf x (tbl # tbls))) \<le> card {b}"
    by (intro card_mono) auto
  then show ?thesis
    using \<open>distinct (buyersOf x (tbl # tbls))\<close> by (simp add: distinct_card)
qed

lemma sorted_all_True:
  fixes bs :: "bool list"
  shows "\<forall>b \<in> set bs. b \<Longrightarrow> sorted bs"
  by (induction bs) auto

lemma sorted_False_Cons:
  fixes bs :: "bool list"
  assumes "\<not> b" and "sorted bs"
  shows "sorted (b # bs)"
proof -
  have "\<forall>y \<in> set bs. b \<le> y" using assms(1) by (simp add: le_bool_def)
  with assms(2) show ?thesis unfolding sorted_simps(2) by blast
qed

lemma chain_facts:
  assumes "chainOk x tbl tr"
  shows "length (reportsOf x tr) \<le> 1
         \<and> sorted (map (soldIn x) (tbl # map snd tr))
         \<and> length (buyersOf x (tbl # map snd tr)) \<le> 1"
  using assms
proof (induction tr arbitrary: tbl)
  case Nil
  then show ?case
    by (simp add: reportsOf_def buyersOf_def List.map_filter_simps split: option.splits)
next
  case (Cons s rest)
  from Cons.prems have step: "stepOk x tbl s" and chain: "chainOk x (snd s) rest" by simp_all
  note IH = Cons.IH [OF chain]
  show ?case
  proof (cases "soldIn x tbl")
    case True
    from sold_stays [OF True Cons.prems]
    have norep: "reportsOf x (s # rest) = []"
      and all: "\<forall>v \<in> set (s # rest). buyerOf x (snd v) = buyerOf x tbl \<and> soldIn x (snd v)"
      by simp_all
    have "\<forall>b \<in> set (map (soldIn x) (tbl # map snd (s # rest))). b"
      using all True by auto
    then have "sorted (map (soldIn x) (tbl # map snd (s # rest)))"
      by (rule sorted_all_True)
    moreover have "length (buyersOf x (tbl # map snd (s # rest))) \<le> 1"
      by (rule buyersOf_sold [OF True]) (use all in auto)
    moreover have "length (reportsOf x (s # rest)) \<le> 1"
      using norep by simp
    ultimately show ?thesis by blast
  next
    case False
    have reports: "length (reportsOf x (s # rest)) \<le> 1"
    proof (cases "reportsSold x (fst s)")
      case True
      with step have "soldBy x tbl (snd s)" by (simp add: stepOk_def)
      then have "soldIn x (snd s)"
        by (auto simp: soldBy_def soldIn_def markedRow_def split: option.splits)
      from sold_stays [OF this chain] have "reportsOf x rest = []" by simp
      then show ?thesis using True by (simp add: reportsOf_def)
    next
      case False
      then show ?thesis using IH by (simp add: reportsOf_def)
    qed
    have "sorted (map (soldIn x) (snd s # map snd rest))"
      using IH by blast
    then have "sorted (soldIn x tbl # map (soldIn x) (snd s # map snd rest))"
      by (rule sorted_False_Cons [OF False])
    then have "sorted (map (soldIn x) (tbl # map snd (s # rest)))"
      by (simp only: list.map)
    moreover have "length (buyersOf x (snd s # map snd rest)) \<le> 1"
      using IH by blast
    then have "length (buyersOf x (tbl # map snd (s # rest))) \<le> 1"
      by (simp only: list.map buyersOf_unsold [OF False])
    ultimately show ?thesis using reports by blast
  qed
qed

text \<open>
  Claim C1. For every item \<open>x\<close> and every sequence of events of purchase attempts (any
  number of attempts in flight at once, their calls interleaved in any order, with any
  failures and any answers of the filter), from a store in which no attempt is in flight:
  each event either leaves the committed row of \<open>x\<close> as it is and returns no result
  listing \<open>x\<close> as sold, or is the commit of an attempt that turns the row of the unsold
  \<open>x\<close> into the row its conditional update wrote and returns a result listing \<open>x\<close>
  as sold (\<open>chainOk\<close>); at most one purchase reports \<open>x\<close> sold; once sold the item
  stays sold (the flags along the sequence are sorted, so there is at most one transition
  from unsold to sold); and at most one buyer of \<open>x\<close> is ever seen.
\<close>

theorem no_double_sell:
  assumes "cs_flights c = Map.empty"
    and "tables (cexec svc events c) = tr"
  shows "chainOk x (cs_items c) tr
         \<and> length (reportsOf x tr) \<le> 1
         \<and> sorted (map (soldIn x) (cs_items c # map snd tr))
         \<and> length (buyersOf x (cs_items c # map snd tr)) \<le> 1"
proof -
  have "Inv c" using assms(1) by (simp add: Inv_def)
  from cexec_chainOk [OF this, of x svc events] chain_facts [of x "cs_items c" tr] assms(2)
  show ?thesis by blast
qed

text \<open>
  The race of scenario E3: only the commit of the first attempt reports \<open>i1\<close> sold, and
  \<open>u1\<close> is its buyer from then on.
\<close>

lemmas race_simps = raceE3_def store0_def db0_def unsold_def txBegin_def txMarkItemAsSold_def
  txEnd_def tables_def Let_def List.map_filter_simps markedRow_def map_add_def
  CalculatePurchaseResult_def reportsSold_def buyerOf_def NewPurchaseService_def

theorem no_double_sell_witness:
  "cs_flights store0 = Map.empty
   \<and> length (reportsOf ''i1'' (tables (cexec (NewPurchaseService 10000 10) raceE3 store0))) \<le> 1
   \<and> length (buyersOf ''i1''
        (cs_items store0 # map snd (tables (cexec (NewPurchaseService 10000 10) raceE3 store0))))
       \<le> 1
   \<and> map (\<lambda>s. reportsSold ''i1'' (fst s)) (cexec (NewPurchaseService 10000 10) raceE3 store0)
       = [False, False, False, False, True, False, False, False, False, False]
   \<and> map (buyerOf ''i1'')
         (cs_items store0 # map snd (tables (cexec (NewPurchaseService 10000 10) raceE3 store0)))
       = [None, None, None, None, None, Some (Some ''u1''), Some (Some ''u1''),
          Some (Some ''u1''), Some (Some ''u1''), Some (Some ''u1''), Some (Some ''u1'')]"
proof -
  have a: "cs_flights store0 = Map.empty" by (simp add: store0_def)
  have b: "map (\<lambda>s. reportsSold ''i1'' (fst s)) (cexec (NewPurchaseService 10000 10) raceE3 store0)
       = [False, False, False, False, True, False, False, False, False, False]"
    by (simp add: race_simps)
  have c: "map (buyerOf ''i1'')
         (cs_items store0 # map snd (tables (cexec (NewPurchaseService 10000 10) raceE3 store0)))
       = [None, None, None, None, None, Some (Some ''u1''), Some (Some ''u1''),
          Some (Some ''u1''), Some (Some ''u1''), Some (Some ''u1''), Some (Some ''u1'')]"
    by (simp add: race_simps)
  show ?thesis
    using a b c
      no_double_sell [where c = store0 and svc = "NewPurchaseService 10000 10"
          and events = raceE3 and x = "''i1''", OF a refl]
    by blast
qed


section \<open>Results about the checkout of a returning user\<close>

subsection \<open>Reuse of the checkout code\<close>

text \<open>
  Claim C8, as stated, fails in four ways. When the cache failed to store the code of
  the user's first checkout (an error that is only logged), or fails to return it at the
  next one, the user's next successful checkout in the same sale returns another code. A
  user who asks again for an item of
  the checkout that a rival has bought meanwhile is refused with \<^verbatim>\<open>ItemAlreadySold\<close>,
  not with \<^verbatim>\<open>UserAlreadyCheckedOutItem\<close>. And when both the read of the checkout rows
  and the membership test of the checked-out items fail, a second checkout of the same
  item succeeds and the checkout then lists the item twice.
\<close>

theorem checkout_code_not_reused:
  "fst (Handle (env0\<lparr>env_fails := codeWriteDown\<rparr>) 10 (db0, redis0) cmd1)
     = Inr \<lparr>resp_Code = ''CHK-S1-00'', resp_ItemsCount = 1, resp_SaleEndsAt = 100\<rparr>
   \<and> fst (Handle (env0\<lparr>env_randomHex := ''01''\<rparr>) 10 afterUnrecordedCheckout cmd2)
       = Inr \<lparr>resp_Code = ''CHK-S1-01'', resp_ItemsCount = 1, resp_SaleEndsAt = 100\<rparr>
   \<and> GetCheckoutByCode False (fst afterRivalPurchase) ''CHK-S1-00''
       = Inr \<lparr>Code = ''CHK-S1-00'', SaleID = ''S1'', UserID = ''u1'', ItemIDs = [''i1''],
              CreatedAt = 50\<rparr>
   \<and> fst (Handle env0 10 afterRivalPurchase cmd1) = Inl ErrItemAlreadySold
   \<and> fst (Handle (env0\<lparr>env_fails := checkoutReadsDown\<rparr>) 10 afterCheckout cmd1)
       = Inr \<lparr>resp_Code = ''CHK-S1-00'', resp_ItemsCount = 1, resp_SaleEndsAt = 100\<rparr>
   \<and> GetCheckoutByCode False
         (fst (snd (Handle (env0\<lparr>env_fails := checkoutReadsDown\<rparr>) 10 afterCheckout cmd1)))
         ''CHK-S1-00''
       = Inr \<lparr>Code = ''CHK-S1-00'', SaleID = ''S1'', UserID = ''u1'',
              ItemIDs = [''i1'', ''i1''], CreatedAt = 50\<rparr>
   \<and> fst (Handle (env0\<lparr>env_fails := codeReadDown, env_randomHex := ''01''\<rparr>) 10
            afterCheckout cmd2)
       = Inr \<lparr>resp_Code = ''CHK-S1-01'', resp_ItemsCount = 1, resp_SaleEndsAt = 100\<rparr>"
proof -
  have "fst (Handle (env0\<lparr>env_fails := codeWriteDown\<rparr>) 10 (db0, redis0) cmd1)
     = Inr \<lparr>resp_Code = ''CHK-S1-00'', resp_ItemsCount = 1, resp_SaleEndsAt = 100\<rparr>
   \<and> fst (Handle (env0\<lparr>env_randomHex := ''01''\<rparr>) 10 afterUnrecordedCheckout cmd2)
       = Inr \<lparr>resp_Code = ''CHK-S1-01'', resp_ItemsCount = 1, resp_SaleEndsAt = 100\<rparr>"
    by (simp add: afterUnrecordedCheckout_def codeWriteDown_def cmd2_def eval_simps hash_simps)
  moreover have "GetCheckoutByCode False (fst afterRivalPurchase) ''CHK-S1-00''
       = Inr \<lparr>Code = ''CHK-S1-00'', SaleID = ''S1'', UserID = ''u1'', ItemIDs = [''i1''],
              CreatedAt = 50\<rparr>
   \<and> fst (Handle env0 10 afterRivalPurchase cmd1) = Inl ErrItemAlreadySold"
    by (simp add: afterRivalPurchase_def afterCheckout_def eval_simps hash_simps)
  moreover have "fst (Handle (env0\<lparr>env_fails := checkoutReadsDown\<rparr>) 10 afterCheckout cmd1)
       = Inr \<lparr>resp_Code = ''CHK-S1-00'', resp_ItemsCount = 1, resp_SaleEndsAt = 100\<rparr>
   \<and> GetCheckoutByCode False
         (fst (snd (Handle (env0\<lparr>env_fails := checkoutReadsDown\<rparr>) 10 afterCheckout cmd1)))
         ''CHK-S1-00''
       = Inr \<lparr>Code = ''CHK-S1-00'', SaleID = ''S1'', UserID = ''u1'',
              ItemIDs = [''i1'', ''i1''], CreatedAt = 50\<rparr>"
    by (simp add: afterCheckout_def checkoutReadsDown_def eval_simps hash_simps)
  moreover have "fst (Handle (env0\<lparr>env_fails := codeReadDown, env_randomHex := ''01''\<rparr>) 10
            afterCheckout cmd2)
       = Inr \<lparr>resp_Code = ''CHK-S1-01'', resp_ItemsCount = 1, resp_SaleEndsAt = 100\<rparr>"
    by (simp add: afterCheckout_def codeReadDown_def cmd2_def eval_simps hash_simps)
  ultimately show ?thesis by blast
qed

lemma obtainCheckoutCode_cached:
  assumes "GetUserCheckoutCode (env_fails env AtGetUserCheckoutCode 0 0) r (sale_ID activeSale)
             (cmd_UserID cmd) = Inr code"
    and "code \<noteq> []"
  shows "obtainCheckoutCode env activeSale r cmd = (Inr code, r)"
proof -
  from assms(2) obtain c cs where "code = c # cs" by (cases code) auto
  with assms(1) show ?thesis by (simp add: obtainCheckoutCode_def)
qed

lemma GetCheckoutByCode_up:
  "GetCheckoutByCode down d code = Inr checkout \<Longrightarrow> GetCheckoutByCode False d code = Inr checkout"
  by (simp add: GetCheckoutByCode_def split: if_splits)

lemma AddItemToCheckout_error:
  "AddItemToCheckout down now d code item = (Some e, d1) \<Longrightarrow> d1 = d"
  by (auto simp: AddItemToCheckout_def split: if_splits list.splits)

lemma AddItemToCheckout_appends:
  assumes add: "AddItemToCheckout down now d code item = (None, d1)"
    and co: "GetCheckoutByCode False d code = Inr checkout"
  shows "\<exists>checkout'. GetCheckoutByCode False d1 code = Inr checkout'
           \<and> set (ItemIDs checkout') = insert item (set (ItemIDs checkout))
           \<and> length (ItemIDs checkout') = Suc (length (ItemIDs checkout))"
proof -
  let ?rows = "filter (\<lambda>a. ca_checkout_code a = code) (tbl_checkout_attempts d)"
  from add obtain a rest where rows: "?rows = a # rest"
    and d1: "d1 = d\<lparr>tbl_checkout_items := tbl_checkout_items d @
                      [\<lparr>ci_id = next_id d, ci_attempt_id = ca_id a, ci_item_id = item,
                        ci_added_at = now\<rparr>],
                    next_id := next_id d + 1\<rparr>"
    by (auto simp: AddItemToCheckout_def split: if_splits list.splits)
  let ?new = "\<lparr>ci_id = next_id d, ci_attempt_id = ca_id a, ci_item_id = item, ci_added_at = now\<rparr>"
  have "a \<in> set ?rows" using rows by simp
  then have a: "a \<in> set (tbl_checkout_attempts d)" "ca_checkout_code a = code" by simp_all
  have has: "attemptHasCode d1 code ?new"
    using a by (auto simp: attemptHasCode_def d1 list_ex_iff)
  have same: "attemptHasCode d1 code = attemptHasCode d code"
    by (rule ext) (simp add: attemptHasCode_def d1)
  have filt: "filter (attemptHasCode d1 code) (tbl_checkout_items d1)
                = filter (attemptHasCode d code) (tbl_checkout_items d) @ [?new]"
    using has by (simp add: same [symmetric]) (simp add: d1)
  have att: "tbl_checkout_attempts d1 = tbl_checkout_attempts d" by (simp add: d1)
  from co obtain row rest' where sorted:
    "sort_key (\<lambda>a. - ca_created_at a) ?rows = row # rest'"
    and ids: "ItemIDs checkout = map ci_item_id
                (sort_key ci_added_at (filter (attemptHasCode d code) (tbl_checkout_items d)))"
    by (auto simp: GetCheckoutByCode_def split: list.splits)
  define checkout' where "checkout' =
     \<lparr>Code = ca_checkout_code row, SaleID = ca_sale_id row, UserID = ca_user_id row,
      ItemIDs = map ci_item_id
                  (sort_key ci_added_at (filter (attemptHasCode d1 code) (tbl_checkout_items d1))),
      CreatedAt = ca_created_at row\<rparr>"
  have "GetCheckoutByCode False d1 code = Inr checkout'"
    using sorted by (simp add: GetCheckoutByCode_def att checkout'_def)
  moreover have "set (ItemIDs checkout') = insert item (set (ItemIDs checkout))"
    by (simp add: checkout'_def ids filt)
  moreover have "length (ItemIDs checkout') = Suc (length (ItemIDs checkout))"
    by (simp add: checkout'_def ids filt)
  ultimately show ?thesis by blast
qed

lemma Handle_checkout_cached:
  assumes cached: "obtainCheckoutCode env activeSale r cmd = (Inr code, r)"
    and loaded: "GetCheckoutByCode (env_fails env AtGetCheckoutByCode 0 0) d code = Inr checkout"
    and run: "Handle_checkout env activeSale (d, r) cmd = (res, (d', r'))"
  shows "(cmd_ItemID cmd \<in> set (ItemIDs checkout)
            \<longrightarrow> res = Inl ErrUserAlreadyCheckedOutItem \<and> d' = d)
         \<and> (\<forall>e. res = Inl e \<longrightarrow> d' = d)
         \<and> (\<forall>resp. res = Inr resp \<longrightarrow>
               resp_Code resp = code \<and> cmd_ItemID cmd \<notin> set (ItemIDs checkout)
               \<and> resp_ItemsCount resp = int (length (ItemIDs checkout)) + 1
               \<and> (\<exists>checkout'. GetCheckoutByCode False d' code = Inr checkout'
                     \<and> set (ItemIDs checkout')
                         = insert (cmd_ItemID cmd) (set (ItemIDs checkout))
                     \<and> length (ItemIDs checkout') = Suc (length (ItemIDs checkout))))"
proof (cases "cmd_ItemID cmd \<in> set (ItemIDs checkout)")
  case True
  then have "storeCheckout env activeSale d cmd code = (Inl ErrUserAlreadyCheckedOutItem, d)"
    using loaded by (simp add: storeCheckout_def AddItem_def)
  with run cached True show ?thesis by (auto simp: Handle_checkout_def)
next
  case False
  obtain err d1 where add:
    "AddItemToCheckout (env_fails env AtAddItemToCheckout 0 0) (env_now env) d code (cmd_ItemID cmd)
       = (err, d1)"
    by (cases "AddItemToCheckout (env_fails env AtAddItemToCheckout 0 0) (env_now env) d code
                 (cmd_ItemID cmd)")
  show ?thesis
  proof (cases err)
    case (Some e)
    with add have "d1 = d" by (auto dest: AddItemToCheckout_error)
    then have "storeCheckout env activeSale d cmd code = (Inl e, d)"
      using loaded False add Some by (simp add: storeCheckout_def AddItem_def)
    with run cached False show ?thesis by (auto simp: Handle_checkout_def)
  next
    case None
    have sc: "storeCheckout env activeSale d cmd code
                = (Inr (checkout\<lparr>ItemIDs := ItemIDs checkout @ [cmd_ItemID cmd]\<rparr>), d1)"
      using loaded False add None by (simp add: storeCheckout_def AddItem_def)
    from AddItemToCheckout_appends [OF add [unfolded None] GetCheckoutByCode_up [OF loaded]]
    obtain checkout' where "GetCheckoutByCode False d1 code = Inr checkout'"
      "set (ItemIDs checkout') = insert (cmd_ItemID cmd) (set (ItemIDs checkout))"
      "length (ItemIDs checkout') = Suc (length (ItemIDs checkout))"
      by blast
    then show ?thesis
      using run cached False sc
      by (auto simp: Handle_checkout_def ItemCount_def split: prod.splits)
  qed
qed


lemma Handle_cached_code:
  assumes active: "GetActiveSale (env_fails env AtGetActiveSale 0 0) d (env_now env)
                     = Inr activeSale"
    and cached: "GetUserCheckoutCode (env_fails env AtGetUserCheckoutCode 0 0) r
                   (sale_ID activeSale) (cmd_UserID cmd) = Inr code"
    and nonempty: "code \<noteq> []"
    and loaded: "GetCheckoutByCode (env_fails env AtGetCheckoutByCode 0 0) d code = Inr checkout"
    and run: "Handle env maxItemsLimit (d, r) cmd = (res, (d', r'))"
  shows "(\<forall>resp. res = Inr resp \<longrightarrow>
            resp_Code resp = code \<and> cmd_ItemID cmd \<notin> set (ItemIDs checkout)
            \<and> resp_ItemsCount resp = int (length (ItemIDs checkout)) + 1
            \<and> (\<exists>checkout'. GetCheckoutByCode False d' code = Inr checkout'
                  \<and> set (ItemIDs checkout') = insert (cmd_ItemID cmd) (set (ItemIDs checkout))
                  \<and> length (ItemIDs checkout') = Suc (length (ItemIDs checkout))))
         \<and> (cmd_ItemID cmd \<in> set (ItemIDs checkout)
              \<longrightarrow> res \<in> Inl ` guardErrors \<and> d' = d)
         \<and> (\<forall>e. res = Inl e \<longrightarrow> d' = d)"
proof -
  note oc = obtainCheckoutCode_cached [OF cached nonempty]
  show ?thesis
  proof (cases "Handle env maxItemsLimit (d, r) cmd = Handle_checkout env activeSale (d, r) cmd")
    case True
    with run have hc: "Handle_checkout env activeSale (d, r) cmd = (res, (d', r'))" by simp
    from Handle_checkout_cached [OF oc loaded hc] show ?thesis
      by (auto simp: guardErrors_def)
  next
    case False
    have early: "res \<in> Inl ` guardErrors \<and> d' = d"
    proof (cases "GetItemByID (env_fails env AtGetItemByID 0 0) d (cmd_ItemID cmd)")
      case (Inl e)
      then have "e = ErrSQL \<or> e = ErrItemNotFound"
        by (auto simp: GetItemByID_def split: if_splits option.splits)
      with run active Inl show ?thesis
        by (auto simp: Handle_def Handle_item_def guardErrors_def split: if_splits)
    next
      case (Inr item)
      with run active False show ?thesis
        by (auto simp: Handle_def Handle_item_def guardErrors_def split: if_splits)
    qed
    then show ?thesis by auto
  qed
qed



lemma sort_key_Nil_iff: "sort_key f xs = [] \<longleftrightarrow> xs = []"
  using length_sort [of f xs] by (cases xs) auto

lemma checkoutKey_neq_userCheckoutKey: "checkoutKey code \<noteq> userCheckoutKey u s"
  by (simp add: checkoutKey_def userCheckoutKey_def)

lemma obtainCheckoutCode_stores:
  assumes "obtainCheckoutCode env s r cmd = (Inr code, r')"
    and "\<not> env_fails env AtSetUserCheckoutCode 0 0"
  shows "strs r' (userCheckoutKey (cmd_UserID cmd) (sale_ID s)) = Some code \<and> code \<noteq> []"
  using assms checkoutKey_neq_userCheckoutKey [of code "cmd_UserID cmd" "sale_ID s"]
  by (auto simp: obtainCheckoutCode_def GetUserCheckoutCode_def GenerateCheckoutCode_def
        SetUserCheckoutCode_def SetCheckoutCode_def
      split: sum.splits list.splits if_splits option.splits)

lemma IncrementUserCheckoutCount_strs:
  "strs (snd (IncrementUserCheckoutCount down r s u)) = strs r"
  by (auto simp: IncrementUserCheckoutCount_def INCRBY_def split: option.splits)

lemma AddUserCheckedOutItem_strs:
  "strs (snd (AddUserCheckedOutItem down r s u x)) = strs r"
  by (simp add: AddUserCheckedOutItem_def)

lemma Handle_checkout_parts:
  assumes "Handle_checkout env s (d, r) cmd = (Inr resp, (d', r'))"
  shows "\<exists>ra checkout. obtainCheckoutCode env s r cmd = (Inr (resp_Code resp), ra)
           \<and> strs r' = strs ra
           \<and> storeCheckout env s d cmd (resp_Code resp) = (Inr checkout, d')"
proof -
  obtain oc ra where oc: "obtainCheckoutCode env s r cmd = (oc, ra)"
    by (cases "obtainCheckoutCode env s r cmd")
  with assms obtain code where code: "oc = Inr code"
    by (cases oc) (auto simp: Handle_checkout_def)
  obtain sc d1 where sc: "storeCheckout env s d cmd code = (sc, d1)"
    by (cases "storeCheckout env s d cmd code")
  with assms oc code obtain checkout where co: "sc = Inr checkout"
    by (cases sc) (auto simp: Handle_checkout_def)
  have "resp_Code resp = code \<and> d' = d1
        \<and> r' = snd (AddUserCheckedOutItem (env_fails env AtAddUserCheckedOutItem 0 0)
                  (snd (IncrementUserCheckoutCount (env_fails env AtIncrementUserCheckoutCount 0 0)
                          ra (sale_ID s) (cmd_UserID cmd)))
                  (sale_ID s) (cmd_UserID cmd) (cmd_ItemID cmd))"
    using assms oc code sc co
    by (auto simp: Handle_checkout_def split: prod.splits)
  then show ?thesis
    using oc code sc co
    by (simp add: AddUserCheckedOutItem_strs IncrementUserCheckoutCount_strs)
qed

lemma Handle_success:
  assumes "Handle env n (d, r) cmd = (Inr resp, w')"
  shows "\<exists>s. GetActiveSale (env_fails env AtGetActiveSale 0 0) d (env_now env) = Inr s
           \<and> Handle_checkout env s (d, r) cmd = (Inr resp, w')"
  using assms
  by (auto simp: Handle_def Handle_item_def split: sum.splits if_splits)

lemma CreateCheckout_loadable:
  assumes cr: "CreateCheckout down d checkout = (None, d')"
    and items: "ItemIDs checkout = [item]"
  shows "\<exists>co. GetCheckoutByCode False d' (Code checkout) = Inr co \<and> item \<in> set (ItemIDs co)"
proof -
  let ?a = "\<lparr>ca_id = next_id d, ca_checkout_code = Code checkout,
              ca_sale_id = SaleID checkout, ca_user_id = UserID checkout,
              ca_created_at = CreatedAt checkout\<rparr>"
  let ?ci = "\<lparr>ci_id = next_id d + 1 + 0, ci_attempt_id = next_id d,
               ci_item_id = item, ci_added_at = CreatedAt checkout\<rparr>"
  from cr items have d': "d' = d\<lparr>tbl_checkout_attempts := tbl_checkout_attempts d @ [?a],
                         tbl_checkout_items := tbl_checkout_items d @ [?ci],
                         next_id := next_id d + 1 + length (ItemIDs checkout)\<rparr>"
    by (auto simp: CreateCheckout_def split: if_splits)
  have rows: "filter (\<lambda>a. ca_checkout_code a = Code checkout) (tbl_checkout_attempts d') \<noteq> []"
    by (simp add: d')
  then obtain row rest where sorted:
    "sort_key (\<lambda>a. - ca_created_at a)
       (filter (\<lambda>a. ca_checkout_code a = Code checkout) (tbl_checkout_attempts d')) = row # rest"
    using sort_key_Nil_iff
      [of "\<lambda>a. - ca_created_at a"
          "filter (\<lambda>a. ca_checkout_code a = Code checkout) (tbl_checkout_attempts d')"]
    by (cases "sort_key (\<lambda>a. - ca_created_at a)
       (filter (\<lambda>a. ca_checkout_code a = Code checkout) (tbl_checkout_attempts d'))") auto
  have has: "attemptHasCode d' (Code checkout) ?ci"
    by (simp add: attemptHasCode_def d')
  have "?ci \<in> set (filter (attemptHasCode d' (Code checkout)) (tbl_checkout_items d'))"
    using has by (simp add: d')
  then have "item \<in> ci_item_id `
               set (filter (attemptHasCode d' (Code checkout)) (tbl_checkout_items d'))"
    by force
  then show ?thesis
    using sorted by (simp add: GetCheckoutByCode_def)
qed

lemma storeCheckout_loadable:
  assumes "storeCheckout env s d cmd code = (Inr checkout, d')"
  shows "\<exists>co. GetCheckoutByCode False d' code = Inr co \<and> cmd_ItemID cmd \<in> set (ItemIDs co)"
proof (cases "GetCheckoutByCode (env_fails env AtGetCheckoutByCode 0 0) d code")
  case (Inl e)
  with assms obtain cnew where new:
    "NewCheckout (env_now env) code (sale_ID s) (cmd_UserID cmd) [cmd_ItemID cmd] = Inr cnew"
    and cr: "CreateCheckout (env_fails env AtCreateCheckout 0 0) d cnew = (None, d')"
    by (auto simp: storeCheckout_def split: sum.splits prod.splits option.splits)
  from new have "Code cnew = code" "ItemIDs cnew = [cmd_ItemID cmd]"
    by (auto simp: NewCheckout_def split: if_splits)
  with CreateCheckout_loadable [OF cr] show ?thesis by auto
next
  case (Inr c0)
  with assms have add:
    "AddItemToCheckout (env_fails env AtAddItemToCheckout 0 0) (env_now env) d code (cmd_ItemID cmd)
       = (None, d')"
    by (auto simp: storeCheckout_def split: sum.splits prod.splits option.splits)
  from AddItemToCheckout_appends [OF add GetCheckoutByCode_up [OF Inr]] show ?thesis by auto
qed

lemma GetActiveSale_tbl_sales:
  "tbl_sales d' = tbl_sales d \<Longrightarrow> GetActiveSale down d' now = GetActiveSale down d now"
  by (simp add: GetActiveSale_def)

lemma Add_strs: "strs (snd (Add down sha bf r x)) = strs r"
  by (simp add: Add_def Let_def)

lemma storeCheckout_tbl_sales:
  "tbl_sales (snd (storeCheckout env s d cmd code)) = tbl_sales d"
  by (auto simp: storeCheckout_def CreateCheckout_def AddItemToCheckout_def
      split: sum.splits prod.splits option.splits if_splits list.splits)

lemma Handle_checkout_tbl_sales:
  "tbl_sales (fst (snd (Handle_checkout env s (d, r) cmd))) = tbl_sales d"
proof -
  obtain oc ra where oc: "obtainCheckoutCode env s r cmd = (oc, ra)"
    by (cases "obtainCheckoutCode env s r cmd")
  show ?thesis
  proof (cases oc)
    case (Inl e)
    with oc show ?thesis by (simp add: Handle_checkout_def)
  next
    case (Inr code)
    obtain sc d1 where sc: "storeCheckout env s d cmd code = (sc, d1)"
      by (cases "storeCheckout env s d cmd code")
    have "tbl_sales d1 = tbl_sales d"
      using storeCheckout_tbl_sales [of env s d cmd code] sc by simp
    with oc Inr sc show ?thesis
      by (cases sc) (auto simp: Handle_checkout_def split: prod.splits)
  qed
qed

lemma Handle_tbl_sales:
  "tbl_sales (fst (snd (Handle env limit (d, r) cmd))) = tbl_sales d"
  using Handle_checkout_tbl_sales [of env _ d r cmd]
  by (auto simp: Handle_def Handle_item_def split: sum.splits)

lemma Handle_checkout_strs:
  assumes "obtainCheckoutCode env s r cmd = (Inr code, r)"
  shows "strs (snd (snd (Handle_checkout env s (d, r) cmd))) = strs r"
proof -
  obtain sc d1 where sc: "storeCheckout env s d cmd code = (sc, d1)"
    by (cases "storeCheckout env s d cmd code")
  have "snd (snd (Handle_checkout env s (d, r) cmd)) = r
        \<or> snd (snd (Handle_checkout env s (d, r) cmd))
            = snd (AddUserCheckedOutItem (env_fails env AtAddUserCheckedOutItem 0 0)
                     (snd (IncrementUserCheckoutCount
                             (env_fails env AtIncrementUserCheckoutCount 0 0) r (sale_ID s)
                             (cmd_UserID cmd)))
                     (sale_ID s) (cmd_UserID cmd) (cmd_ItemID cmd))"
    using assms sc by (cases sc) (auto simp: Handle_checkout_def split: prod.splits)
  then show ?thesis
    by (auto simp: AddUserCheckedOutItem_strs IncrementUserCheckoutCount_strs)
qed

lemma Handle_strs:
  assumes active: "GetActiveSale (env_fails env AtGetActiveSale 0 0) d (env_now env) = Inr s"
    and cached: "obtainCheckoutCode env s r cmd = (Inr code, r)"
  shows "strs (snd (snd (Handle env limit (d, r) cmd))) = strs r"
  using active Handle_checkout_strs [OF cached, of d]
  by (auto simp: Handle_def Handle_item_def AddItemToBloomFilter_def Add_strs split: sum.splits)

text \<open>What the served sequence keeps.\<close>

lemma reuse_step:
  assumes key: "strs r (userCheckoutKey userID (sale_ID s1)) = Some code" and ne: "code \<noteq> []"
    and sales: "tbl_sales d = tbl_sales d0"
    and co: "GetCheckoutByCode False d code = Inr checkout"
    and fol: "follows s1 userID d0 (env, limit, cmd)"
    and run: "Handle env limit (d, r) cmd = (res, (d', r'))"
  shows "reuseStep code d cmd (res, (d', r'))
         \<and> strs r' (userCheckoutKey userID (sale_ID s1)) = Some code
         \<and> tbl_sales d' = tbl_sales d0
         \<and> (\<exists>checkout'. GetCheckoutByCode False d' code = Inr checkout')"
proof -
  have user: "cmd_UserID cmd = userID"
    and read: "\<not> env_fails env AtGetUserCheckoutCode 0 0"
    and load: "\<not> env_fails env AtGetCheckoutByCode 0 0"
    using fol by (simp_all add: follows_def)
  have sales': "tbl_sales d' = tbl_sales d0"
    using Handle_tbl_sales [of env limit d r cmd] run sales by simp
  have same: "GetActiveSale (env_fails env AtGetActiveSale 0 0) d (env_now env)
                = GetActiveSale (env_fails env AtGetActiveSale 0 0) d0 (env_now env)"
    using sales by (simp add: GetActiveSale_def)
  show ?thesis
  proof (cases "GetActiveSale (env_fails env AtGetActiveSale 0 0) d (env_now env)")
    case (Inl e)
    with run have "res = Inl ErrSaleNotFound" "d' = d" "r' = r"
      by (auto simp: Handle_def)
    then show ?thesis
      using co key sales by (simp add: reuseStep_def guardErrors_def)
  next
    case (Inr s2)
    with same have "GetActiveSale (env_fails env AtGetActiveSale 0 0) d0 (env_now env) = Inr s2"
      by simp
    with fol have sid: "sale_ID s2 = sale_ID s1" by (simp add: follows_def)
    have cached: "GetUserCheckoutCode (env_fails env AtGetUserCheckoutCode 0 0) r (sale_ID s2)
                    (cmd_UserID cmd) = Inr code"
      using key read sid user by (simp add: GetUserCheckoutCode_def)
    have loaded: "GetCheckoutByCode (env_fails env AtGetCheckoutByCode 0 0) d code = Inr checkout"
      using co load by simp
    note facts = Handle_cached_code [OF Inr cached ne loaded run]
    have strs: "strs r' = strs r"
      using Handle_strs [OF Inr obtainCheckoutCode_cached [OF cached ne], of limit] run by simp
    show ?thesis
    proof (cases res)
      case (Inl e)
      with facts have "d' = d" by blast
      moreover have "cmd_ItemID cmd \<in> set (ItemIDs checkout) \<longrightarrow> e \<in> guardErrors"
        using facts Inl by auto
      ultimately show ?thesis
        using Inl co key strs sales by (simp add: reuseStep_def)
    next
      case (Inr resp)
      with facts obtain checkout' where
        "resp_Code resp = code" "cmd_ItemID cmd \<notin> set (ItemIDs checkout)"
        "resp_ItemsCount resp = int (length (ItemIDs checkout)) + 1"
        "GetCheckoutByCode False d' code = Inr checkout'"
        "set (ItemIDs checkout') = insert (cmd_ItemID cmd) (set (ItemIDs checkout))"
        "length (ItemIDs checkout') = Suc (length (ItemIDs checkout))"
        by blast
      then show ?thesis
        using Inr co key strs sales' by (simp add: reuseStep_def)
    qed
  qed
qed

lemma reuse_sequence:
  assumes "strs r (userCheckoutKey userID (sale_ID s1)) = Some code" and "code \<noteq> []"
    and "tbl_sales d = tbl_sales d0"
    and "GetCheckoutByCode False d code = Inr checkout"
    and "list_all (follows s1 userID d0) reqs"
  shows "reuses code d (zip reqs (checkouts reqs (d, r)))"
  using assms
proof (induction reqs arbitrary: d r checkout)
  case Nil
  then show ?case by simp
next
  case (Cons q reqs)
  obtain env limit cmd where q: "q = (env, limit, cmd)" by (cases q)
  obtain res d' r' where run: "Handle env limit (d, r) cmd = (res, (d', r'))"
    by (cases "Handle env limit (d, r) cmd") auto
  have fol: "follows s1 userID d0 (env, limit, cmd)" and rest: "list_all (follows s1 userID d0) reqs"
    using Cons.prems(5) q by simp_all
  from reuse_step [OF Cons.prems(1,2,3,4) fol run]
  obtain checkout' where step: "reuseStep code d cmd (res, (d', r'))"
    and key': "strs r' (userCheckoutKey userID (sale_ID s1)) = Some code"
    and sales': "tbl_sales d' = tbl_sales d0"
    and co': "GetCheckoutByCode False d' code = Inr checkout'"
    by blast
  from Cons.IH [OF key' Cons.prems(2) sales' co' rest]
  show ?case using step q run by simp
qed

text \<open>
  Claim C8, amended. Let a user's checkout in a sale succeed, the cache write of the
  user's code not having failed, and let it be followed by any sequence of checkout
  requests of the same user in that sale, served one after the other on the stores it
  left, in which the reads of the user's code and of the checkout rows do not fail. Then
  the code returned by the first checkout has a checkout in the store, which holds the
  first item, and every request of the sequence reuses that checkout: a successful one
  returns the same code, its item was not in the checkout, and the checkout afterwards
  holds the former items and the new one, once; a failing one leaves the store as it is;
  and a request for an item that is already in the checkout fails, so the item is never
  appended a second time; the error is \<^verbatim>\<open>UserAlreadyCheckedOutItem\<close> or that of an
  earlier guard of the handler.
\<close>

theorem checkout_reuses_stored_code:
  assumes first: "Handle env1 limit1 (d0, r0) cmd1' = (Inr resp1, (d1, r1))"
    and sale1: "GetActiveSale (env_fails env1 AtGetActiveSale 0 0) d0 (env_now env1) = Inr s1"
    and stored: "\<not> env_fails env1 AtSetUserCheckoutCode 0 0"
    and later: "list_all (follows s1 (cmd_UserID cmd1') d0) reqs"
  shows "(\<exists>checkout. GetCheckoutByCode False d1 (resp_Code resp1) = Inr checkout
            \<and> cmd_ItemID cmd1' \<in> set (ItemIDs checkout))
         \<and> reuses (resp_Code resp1) d1 (zip reqs (checkouts reqs (d1, r1)))"
proof -
  from Handle_success [OF first] sale1
  have hc: "Handle_checkout env1 s1 (d0, r0) cmd1' = (Inr resp1, (d1, r1))" by auto
  from Handle_checkout_parts [OF hc] obtain ra checkout0 where
    oc: "obtainCheckoutCode env1 s1 r0 cmd1' = (Inr (resp_Code resp1), ra)"
    and strs: "strs r1 = strs ra"
    and sc: "storeCheckout env1 s1 d0 cmd1' (resp_Code resp1) = (Inr checkout0, d1)"
    by blast
  from obtainCheckoutCode_stores [OF oc stored] strs
  have key: "strs r1 (userCheckoutKey (cmd_UserID cmd1') (sale_ID s1)) = Some (resp_Code resp1)"
    and ne: "resp_Code resp1 \<noteq> []"
    by simp_all
  from storeCheckout_loadable [OF sc] obtain checkout where
    co: "GetCheckoutByCode False d1 (resp_Code resp1) = Inr checkout"
    and mem: "cmd_ItemID cmd1' \<in> set (ItemIDs checkout)"
    by blast
  have sales: "tbl_sales d1 = tbl_sales d0"
    using Handle_tbl_sales [of env1 limit1 d0 r0 cmd1'] first by simp
  from reuse_sequence [OF key ne sales co later] co mem
  show ?thesis by blast
qed

text \<open>
  After the checkout of \<open>i1\<close>, the checkout of \<open>i2\<close> draws another random string
  (\<open>01\<close>) than the first (\<open>00\<close>) and returns the stored code, not a new one; the
  request for \<open>i1\<close> again is refused.
\<close>

theorem checkout_reuses_stored_code_witness:
  "list_all (follows sale1 ''u1'' db0) laterRequests
   \<and> fst (Handle env0 10 (db0, redis0) cmd1)
       = Inr \<lparr>resp_Code = ''CHK-S1-00'', resp_ItemsCount = 1, resp_SaleEndsAt = 100\<rparr>
   \<and> map fst (checkouts laterRequests afterCheckout)
       = [Inr \<lparr>resp_Code = ''CHK-S1-00'', resp_ItemsCount = 2, resp_SaleEndsAt = 100\<rparr>,
          Inl ErrUserAlreadyCheckedOutItem]
   \<and> reuses ''CHK-S1-00'' (fst afterCheckout)
        (zip laterRequests (checkouts laterRequests afterCheckout))"
proof -
  let ?R1 = "\<lparr>resp_Code = ''CHK-S1-00'', resp_ItemsCount = 1, resp_SaleEndsAt = 100\<rparr>"
  have res1: "fst (Handle env0 10 (db0, redis0) cmd1) = Inr ?R1"
    by (simp add: eval_simps hash_simps)
  have first: "Handle env0 10 (db0, redis0) cmd1 = (Inr ?R1, (fst afterCheckout, snd afterCheckout))"
    using res1 by (simp add: afterCheckout_def prod_eq_iff)
  have sale1: "GetActiveSale (env_fails env0 AtGetActiveSale 0 0) db0 (env_now env0) = Inr sale1"
    by (simp add: env0_def quiet_def GetActiveSale_db0)
  have stored: "\<not> env_fails env0 AtSetUserCheckoutCode 0 0"
    by (simp add: env0_def quiet_def)
  have later: "list_all (follows sale1 (cmd_UserID cmd1) db0) laterRequests"
    by (simp add: laterRequests_def follows_def env0_def quiet_def cmd1_def cmd2_def
          GetActiveSale_db0)
  have answers: "map fst (checkouts laterRequests afterCheckout)
       = [Inr \<lparr>resp_Code = ''CHK-S1-00'', resp_ItemsCount = 2, resp_SaleEndsAt = 100\<rparr>,
          Inl ErrUserAlreadyCheckedOutItem]"
    by (simp add: laterRequests_def afterCheckout_def cmd2_def eval_simps hash_simps)
  have w: "afterCheckout = (fst afterCheckout, snd afterCheckout)" by simp
  from checkout_reuses_stored_code [OF first sale1 stored later]
  have "reuses ''CHK-S1-00'' (fst afterCheckout)
          (zip laterRequests (checkouts laterRequests (fst afterCheckout, snd afterCheckout)))"
    by simp
  then show ?thesis
    using later res1 answers by (simp add: cmd1_def)
qed


end
